theory Spec2Isabelle
  imports Complex_Main
begin

section \<open>Data model (types.ts, utils/db.ts, data/initialData.ts)\<close>

text \<open>
  A Blob is an opaque payload; a File is a Blob with a name. JavaScript numbers that the
  program only counts with (ids, counters, indices) are integers here, and adding one to
  a counter is the addition of JavaScript numbers (\<open>plus1\<close> below); a position is a
  triple of numbers that the program only copies.

  Field names follow the interfaces of types.ts. Where two interfaces share a field name,
  or the name is a keyword here, the field is prefixed: \<open>id\<close> and \<open>text\<close> of StarData are
  \<open>star_id\<close> and \<open>star_text\<close>, \<open>id\<close> of Song is \<open>song_id\<close>, and the fields of TempImage
  are \<open>img_url\<close>, \<open>img_file\<close>, \<open>img_assetId\<close>. An optional field is an \<open>option\<close>.
\<close>

type_synonym blob = string

record File =
  file_name :: string
  file_blob :: blob

record StarData =
  star_id :: int
  position :: "real \<times> real \<times> real"
  images :: "string list"
  imageAssetIds :: "string list option"
  star_text :: "string option"
  isActive :: bool
  viewCount :: int

record Song =
  song_id :: string
  name :: string
  url :: string
  assetId :: "string option"

record TempImage =
  img_url :: string
  img_file :: "File option"
  img_assetId :: "string option"

text \<open>
  The module data/initialData.ts is the seed snapshot; the text that the export writes
  has the same three constants.
\<close>

record InitialData =
  STATIC_STARS :: "StarData list"
  STATIC_PLAYLIST :: "Song list"
  INITIAL_PLAYBACK_COUNT :: int

text \<open>
  GameState is the Document of utils/db.ts. The three pieces of React state of App with
  the same names are the first three fields of the application state \<open>World\<close>, which
  extends it with the rest of App's state, the two object stores of the IndexedDB
  database, and what the browser shows or holds (alerts, the clipboard).
\<close>

record GameState =
  stars :: "StarData list"
  playlist :: "Song list"
  playbackCount :: int

datatype alert = PlaylistFull int | DataCopied | ExportFailed | StarSaveError

record World = GameState +
  currentSongIndex :: int
  isDataLoaded :: bool
  isUploadModalOpen :: bool
  editingStarId :: "int option"
  tempImages :: "TempImage list"
  tempText :: string
  dbOk :: bool
  STORE_ASSETS :: "string \<rightharpoonup> blob"
  STORE_STATE :: "string \<rightharpoonup> GameState"
  rng :: nat
  alerts :: "alert list"
  clipboardOk :: bool
  clipboard :: "InitialData option"

text \<open>
  \<open>dbOk\<close> says whether requests to IndexedDB succeed (openDB resolves and the request's
  onsuccess fires); when it is false every operation of utils/db.ts rejects. \<open>rng\<close>
  counts the random identifiers drawn so far. \<open>clipboardOk\<close> says whether
  navigator.clipboard.writeText resolves, and \<open>clipboard\<close> holds the exported
  constants (the program writes them as JSON text).
\<close>

text \<open>
  What the program asks of the browser is an oracle of the environment: the outcomes of
  Math.random for the fallback scene, of crypto.randomUUID and generateId, the name the
  browser gives an object URL, what fetch returns for a URL (\<open>None\<close> when fetch or
  response.blob rejects) and what FileReader.readAsDataURL returns for a Blob (\<open>None\<close>
  when the reader fires onerror).
\<close>

record Env =
  initialData :: InitialData
  randomPosition :: "nat \<Rightarrow> real \<times> real \<times> real"
  randomUUID :: "nat \<Rightarrow> string"
  randomId :: "nat \<Rightarrow> string"
  objectURL :: "blob \<Rightarrow> string"
  fetchBlob :: "string \<Rightarrow> blob option"
  readAsDataURL :: "blob \<Rightarrow> string option"

datatype error = DBError

section \<open>JavaScript and browser primitives\<close>

definition startsWith :: "string \<Rightarrow> string \<Rightarrow> bool" where
  "startsWith s p = (take (length p) s = p)"

text \<open>
  \<open>n + 1\<close> on a JavaScript number with an integer value. A number is an IEEE-754
  double: the sum is exact from -2^53 up to 2^53 - 1, and beyond it is rounded to the
  nearest double, a tie going to the one with the even significand. Between 2^53 and
  2^54 in magnitude the doubles are the even integers, so the sum is a tie and goes to the
  neighbour that is a multiple of 4; from 2^54 on the nearest double is the number itself.
  So 2^53 + 1 is 2^53. The counters of the program are numbers of this kind; numbers
  that are not integers are outside this model.
\<close>

definition plus1 :: "int \<Rightarrow> int" where
  "plus1 n =
     (if - (2 ^ 53) \<le> n \<and> n < 2 ^ 53 then n + 1
      else if \<bar>n\<bar> < 2 ^ 54 then (if n mod 4 = 0 then n else n + 2)
      else n)"

text \<open>URL.createObjectURL returns a string of the form blob:...; it is never empty.\<close>

definition createObjectURL :: "Env \<Rightarrow> blob \<Rightarrow> string" where
  "createObjectURL env b = ''blob:'' @ objectURL env b"

text \<open>
  Promise.all over requests that only read: it rejects as soon as one of them rejects.
\<close>

fun Promise_all :: "(error + 'a) list \<Rightarrow> error + 'a list" where
  "Promise_all [] = Inr []"
| "Promise_all (Inl e # rs) = Inl e"
| "Promise_all (Inr x # rs) =
     (case Promise_all rs of Inl e \<Rightarrow> Inl e | Inr xs \<Rightarrow> Inr (x # xs))"

section \<open>utils/db.ts\<close>

text \<open>
  The two object stores are maps from keys to values; put overwrites. What is stored is a
  structured clone, a value equal to the one given. Every function opens the database
  first and rejects when that or its request fails.
\<close>

definition saveAsset :: "Env \<Rightarrow> blob \<Rightarrow> World \<Rightarrow> error + (string \<times> World)" where
  "saveAsset env b w =
     (if \<not> dbOk w then Inl DBError
      else let i = randomUUID env (rng w)
           in Inr (i, w\<lparr>STORE_ASSETS := (STORE_ASSETS w)(i \<mapsto> b), rng := rng w + 1\<rparr>))"

definition getAsset :: "string \<Rightarrow> World \<Rightarrow> error + blob option" where
  "getAsset i w = (if \<not> dbOk w then Inl DBError else Inr (STORE_ASSETS w i))"

definition saveGameState :: "GameState \<Rightarrow> World \<Rightarrow> error + World" where
  "saveGameState st w =
     (if \<not> dbOk w then Inl DBError
      else Inr (w\<lparr>STORE_STATE := (STORE_STATE w)(''current'' \<mapsto> st)\<rparr>))"

definition loadGameState :: "World \<Rightarrow> error + GameState option" where
  "loadGameState w = (if \<not> dbOk w then Inl DBError else Inr (STORE_STATE w ''current''))"

section \<open>App: initial state and the restore on mount\<close>

text \<open>
  The repository has two source files for App. Their handlers are the same; they differ
  in init and in handleExportData. The variant with urlToBase64 is the one whose export
  is modelled; the two inits carry the suffixes part_001 (that variant) and part_000.
\<close>

definition generateRandomStars :: "Env \<Rightarrow> StarData list" where
  "generateRandomStars env =
     map (\<lambda>i. \<lparr>star_id = int i, position = randomPosition env i, images = [],
               imageAssetIds = None, star_text = None, isActive = False, viewCount = 0\<rparr>)
         [0..<20]"

text \<open>
  The state of App at its first render, over a database that holds \<open>as\<close> and \<open>st\<close>
  and answers or not (\<open>ok\<close>), in a browser whose clipboard can be written or not (\<open>cb\<close>).
\<close>

definition App ::
  "Env \<Rightarrow> bool \<Rightarrow> bool \<Rightarrow> (string \<rightharpoonup> blob) \<Rightarrow> (string \<rightharpoonup> GameState) \<Rightarrow> World" where
  "App env ok cb as st =
     \<lparr>stars = (if length (STATIC_STARS (initialData env)) > 0
               then STATIC_STARS (initialData env) else generateRandomStars env),
      playlist = STATIC_PLAYLIST (initialData env),
      playbackCount = INITIAL_PLAYBACK_COUNT (initialData env),
      currentSongIndex = 0,
      isDataLoaded = False,
      isUploadModalOpen = False,
      editingStarId = None,
      tempImages = [],
      tempText = [],
      dbOk = ok,
      STORE_ASSETS = as,
      STORE_STATE = st,
      rng = 0,
      alerts = [],
      clipboardOk = cb,
      clipboard = None\<rparr>"

text \<open>
  The body of the map over savedState.stars in init. \<open>blobUrls[i] || original\<close> takes
  the object URL when the index is in range and the URL is not empty, and
  \<open>filter(Boolean)\<close> drops the empty strings. The guard \<open>s.images || []\<close> that one
  variant of App has changes nothing for a value of the declared type.
\<close>

definition restoreStar :: "Env \<Rightarrow> World \<Rightarrow> StarData \<Rightarrow> error + StarData" where
  "restoreStar env w s =
     (case imageAssetIds s of
        None \<Rightarrow> Inr s
      | Some ids \<Rightarrow>
          if length ids > 0 then
            (case Promise_all (map (\<lambda>i. getAsset i w) ids) of
               Inl e \<Rightarrow> Inl e
             | Inr blobs \<Rightarrow>
                 let blobUrls = map (\<lambda>b. case b of Some x \<Rightarrow> createObjectURL env x | None \<Rightarrow> []) blobs;
                     imageUrls = filter (\<lambda>u. u \<noteq> [])
                       (map (\<lambda>(i, original).
                               if i < length blobUrls \<and> blobUrls ! i \<noteq> [] then blobUrls ! i
                               else original)
                            (enumerate 0 (images s)))
                 in Inr (s\<lparr>images := imageUrls\<rparr>))
          else Inr s)"

definition restoreSong :: "Env \<Rightarrow> World \<Rightarrow> Song \<Rightarrow> error + Song" where
  "restoreSong env w s =
     (case assetId s of
        None \<Rightarrow> Inr s
      | Some a \<Rightarrow>
          if a \<noteq> [] then
            (case getAsset a w of
               Inl e \<Rightarrow> Inl e
             | Inr None \<Rightarrow> Inr s
             | Inr (Some blob) \<Rightarrow> Inr (s\<lparr>url := createObjectURL env blob\<rparr>))
          else Inr s)"

text \<open>
  The part of init that both variants of App share: the branch taken when a Document was
  loaded. An exception leaves the state as it was.
\<close>

definition restore :: "Env \<Rightarrow> GameState \<Rightarrow> World \<Rightarrow> World" where
  "restore env savedState w =
     (case Promise_all (map (restoreStar env w) (stars savedState)) of
        Inl e \<Rightarrow> w
      | Inr restoredStars \<Rightarrow>
          (case Promise_all (map (restoreSong env w) (playlist savedState)) of
             Inl e \<Rightarrow> w
           | Inr restoredPlaylist \<Rightarrow>
               w\<lparr>stars := restoredStars,
                 playlist := filter (\<lambda>s. url s \<noteq> []) restoredPlaylist,
                 playbackCount := playbackCount savedState\<rparr>))"

text \<open>
  init of the variant of App that exports inline data (the file with urlToBase64): it has
  no branch for a store without a Document.
\<close>

definition init_part_001 :: "Env \<Rightarrow> World \<Rightarrow> World" where
  "init_part_001 env w =
     (case loadGameState w of
        Inl e \<Rightarrow> w
      | Inr None \<Rightarrow> w
      | Inr (Some savedState) \<Rightarrow> restore env savedState w)
     \<lparr>isDataLoaded := True\<rparr>"

text \<open>
  init of the other variant of App: with no Document in the store and a seed that has a
  star, it saves the seed. The save is not awaited: a rejection changes nothing.
\<close>

definition init_part_000 :: "Env \<Rightarrow> World \<Rightarrow> World" where
  "init_part_000 env w =
     (case loadGameState w of
        Inl e \<Rightarrow> w
      | Inr None \<Rightarrow>
          if length (STATIC_STARS (initialData env)) > 0 then
            (case saveGameState
                    \<lparr>stars = STATIC_STARS (initialData env),
                     playlist = STATIC_PLAYLIST (initialData env),
                     playbackCount = INITIAL_PLAYBACK_COUNT (initialData env)\<rparr> w of
               Inl e \<Rightarrow> w
             | Inr w' \<Rightarrow> w')
          else w
      | Inr (Some savedState) \<Rightarrow> restore env savedState w)
     \<lparr>isDataLoaded := True\<rparr>"

section \<open>App: derived values and handlers\<close>

definition saveGame :: "StarData list \<Rightarrow> Song list \<Rightarrow> int \<Rightarrow> World \<Rightarrow> World" where
  "saveGame newStars newPlaylist newPlaybackCount w =
     (case saveGameState
             \<lparr>stars = newStars, playlist = newPlaylist, playbackCount = newPlaybackCount\<rparr> w of
        Inl e \<Rightarrow> w
      | Inr w' \<Rightarrow> w')"

definition maxPlaylistSize :: "World \<Rightarrow> int" where
  "maxPlaylistSize w = (let bonus = playbackCount w div 10 in min 10 (5 + bonus))"

definition isContinuousPlayUnlocked :: "World \<Rightarrow> bool" where
  "isContinuousPlayUnlocked w = (playbackCount w \<ge> 60)"

text \<open>
  urlToBase64: a data URL passes through; a failure of fetch or of the reader is caught
  and the URL is returned as it was. The reader's result is a data URL.
\<close>

definition urlToBase64 :: "Env \<Rightarrow> string \<Rightarrow> string" where
  "urlToBase64 env u =
     (if startsWith u ''data:'' then u
      else (case fetchBlob env u of
              None \<Rightarrow> u
            | Some blob \<Rightarrow>
                (case readAsDataURL env blob of
                   None \<Rightarrow> u
                 | Some r \<Rightarrow> ''data:'' @ r)))"

definition handleExportData :: "Env \<Rightarrow> World \<Rightarrow> World" where
  "handleExportData env w =
     (let cleanStars =
            map (\<lambda>s. s\<lparr>images := map (urlToBase64 env) (images s), imageAssetIds := None\<rparr>)
                (stars w);
          cleanPlaylist =
            map (\<lambda>s. \<lparr>song_id = song_id s, name = name s,
                       url = (if \<not> startsWith (url s) ''data:'' then urlToBase64 env (url s)
                              else url s),
                       assetId = None\<rparr>)
                (playlist w)
      in if clipboardOk w then
           w\<lparr>clipboard := Some \<lparr>STATIC_STARS = cleanStars, STATIC_PLAYLIST = cleanPlaylist,
                                 INITIAL_PLAYBACK_COUNT = playbackCount w\<rparr>,
             alerts := alerts w @ [DataCopied]\<rparr>
         else w\<lparr>alerts := alerts w @ [ExportFailed]\<rparr>)"

text \<open>
  handleMusicUpload receives the first selected file, if there is one.
\<close>

definition handleMusicUpload :: "Env \<Rightarrow> File option \<Rightarrow> World \<Rightarrow> World" where
  "handleMusicUpload env files0 w =
     (case files0 of
        None \<Rightarrow> w
      | Some file \<Rightarrow>
          if int (length (playlist w)) \<ge> maxPlaylistSize w then
            w\<lparr>alerts := alerts w @ [PlaylistFull (maxPlaylistSize w)]\<rparr>
          else
            (case saveAsset env (file_blob file) w of
               Inl e \<Rightarrow> w
             | Inr (aid, w1) \<Rightarrow>
                 let newSong = \<lparr>song_id = randomId env (rng w1), name = file_name file,
                                url = createObjectURL env (file_blob file),
                                assetId = Some aid\<rparr>;
                     newPlaylist = playlist w @ [newSong]
                 in saveGame (stars w) newPlaylist (playbackCount w)
                      (w1\<lparr>playlist := newPlaylist,
                          currentSongIndex := int (length newPlaylist) - 1,
                          rng := rng w1 + 1\<rparr>)))"

definition handleSongEnd :: "World \<Rightarrow> World" where
  "handleSongEnd w =
     (let newCount = plus1 (playbackCount w)
      in saveGame (stars w) (playlist w) newCount (w\<lparr>playbackCount := newCount\<rparr>))"

definition handleStarClick :: "int \<Rightarrow> World \<Rightarrow> World" where
  "handleStarClick i w =
     (case find (\<lambda>s. star_id s = i) (stars w) of
        None \<Rightarrow> w
      | Some star \<Rightarrow>
          w\<lparr>editingStarId := Some i,
            tempImages :=
              map (\<lambda>(index, u).
                     \<lparr>img_url = u, img_file = None,
                      img_assetId =
                        (case imageAssetIds star of
                           None \<Rightarrow> None
                         | Some ids \<Rightarrow> if index < length ids then Some (ids ! index) else None)\<rparr>)
                  (enumerate 0 (images star)),
            tempText := (case star_text star of None \<Rightarrow> [] | Some t \<Rightarrow> t),
            isUploadModalOpen := True\<rparr>)"

definition handleStarView :: "int \<Rightarrow> World \<Rightarrow> World" where
  "handleStarView i w =
     (let newStars =
            map (\<lambda>star. if star_id star = i then star\<lparr>viewCount := plus1 (viewCount star)\<rparr>
                         else star)
                (stars w)
      in saveGame newStars (playlist w) (playbackCount w) (w\<lparr>stars := newStars\<rparr>))"

text \<open>
  The map over tempImages in handleLaunchStar: an image that carries a File is saved to
  the asset store and takes the new identifier, any other keeps the one it has. The first
  save that rejects rejects the whole.
\<close>

fun processedImages ::
  "Env \<Rightarrow> TempImage list \<Rightarrow> World \<Rightarrow> error + ((string \<times> string option) list \<times> World)" where
  "processedImages env [] w = Inr ([], w)"
| "processedImages env (img # imgs) w =
     (case img_file img of
        Some f \<Rightarrow>
          (case saveAsset env (file_blob f) w of
             Inl e \<Rightarrow> Inl e
           | Inr (i, w1) \<Rightarrow>
               (case processedImages env imgs w1 of
                  Inl e \<Rightarrow> Inl e
                | Inr (ps, w2) \<Rightarrow> Inr ((img_url img, Some i) # ps, w2)))
      | None \<Rightarrow>
          (case processedImages env imgs w of
             Inl e \<Rightarrow> Inl e
           | Inr (ps, w2) \<Rightarrow> Inr ((img_url img, img_assetId img) # ps, w2)))"

definition handleLaunchStar :: "Env \<Rightarrow> World \<Rightarrow> World" where
  "handleLaunchStar env w =
     (case editingStarId w of
        None \<Rightarrow> w
      | Some e \<Rightarrow>
          (case processedImages env (tempImages w) w of
             Inl err \<Rightarrow> w\<lparr>alerts := alerts w @ [StarSaveError]\<rparr>
           | Inr (ps, w1) \<Rightarrow>
               let finalImageUrls = map fst ps;
                   finalAssetIds = map (\<lambda>p. case snd p of None \<Rightarrow> [] | Some a \<Rightarrow> a) ps;
                   newStars =
                     map (\<lambda>star. if star_id star = e then
                                    star\<lparr>isActive := True, images := finalImageUrls,
                                         imageAssetIds := Some finalAssetIds,
                                         star_text := Some (tempText w), viewCount := 0\<rparr>
                                  else star)
                         (stars w)
               in (saveGame newStars (playlist w) (playbackCount w) (w1\<lparr>stars := newStars\<rparr>))
                    \<lparr>tempImages := [], tempText := [], editingStarId := None,
                     isUploadModalOpen := False\<rparr>))"

definition processFiles :: "Env \<Rightarrow> File list \<Rightarrow> World \<Rightarrow> World" where
  "processFiles env files w =
     (let remainingSlots = 4 - int (length (tempImages w))
      in if remainingSlots \<le> 0 then w
         else
           let count = min (int (length files)) remainingSlots;
               newTempImages =
                 map (\<lambda>file. \<lparr>img_url = createObjectURL env (file_blob file),
                               img_file = Some file, img_assetId = None\<rparr>)
                     (take (nat count) files)
           in w\<lparr>tempImages := tempImages w @ newTempImages\<rparr>)"

definition handleImageSelect :: "Env \<Rightarrow> File list option \<Rightarrow> World \<Rightarrow> World" where
  "handleImageSelect env files w =
     (case files of None \<Rightarrow> w | Some fs \<Rightarrow> processFiles env fs w)"

definition handleDrop :: "Env \<Rightarrow> File list \<Rightarrow> World \<Rightarrow> World" where
  "handleDrop env files w = (if files \<noteq> [] then processFiles env files w else w)"

definition removeTempImage :: "nat \<Rightarrow> World \<Rightarrow> World" where
  "removeTempImage index w =
     w\<lparr>tempImages := map snd (filter (\<lambda>(i, img). i \<noteq> index) (enumerate 0 (tempImages w)))\<rparr>"

definition handlePlaylistUpdate :: "Song list \<Rightarrow> World \<Rightarrow> World" where
  "handlePlaylistUpdate newPlaylist w =
     saveGame (stars w) newPlaylist (playbackCount w) (w\<lparr>playlist := newPlaylist\<rparr>)"

section \<open>Sessions\<close>

text \<open>
  What the user and the child components can ask of App once it is mounted that changes
  its state, one handler at a time: each handler runs on the state the one before it
  left. These handlers are the same in both variants of App. The export, which only
  writes to the clipboard, is not among them.
\<close>

datatype event =
    MusicUpload "File option"
  | SongEnd
  | StarClick int
  | StarView int
  | LaunchStar
  | ImageSelect "File list option"
  | Drop "File list"
  | RemoveTempImage nat
  | PlaylistUpdate "Song list"
  | SetCurrentIndex int
  | SetTempText string
  | CloseModal

fun step :: "Env \<Rightarrow> World \<Rightarrow> event \<Rightarrow> World" where
  "step env w (MusicUpload f) = handleMusicUpload env f w"
| "step env w SongEnd = handleSongEnd w"
| "step env w (StarClick i) = handleStarClick i w"
| "step env w (StarView i) = handleStarView i w"
| "step env w LaunchStar = handleLaunchStar env w"
| "step env w (ImageSelect fs) = handleImageSelect env fs w"
| "step env w (Drop fs) = handleDrop env fs w"
| "step env w (RemoveTempImage i) = removeTempImage i w"
| "step env w (PlaylistUpdate p) = handlePlaylistUpdate p w"
| "step env w (SetCurrentIndex i) = w\<lparr>currentSongIndex := i\<rparr>"
| "step env w (SetTempText t) = w\<lparr>tempText := t\<rparr>"
| "step env w CloseModal = w\<lparr>isUploadModalOpen := False\<rparr>"

definition run :: "Env \<Rightarrow> event list \<Rightarrow> World \<Rightarrow> World" where
  "run env evs w = foldl (step env) w evs"

section \<open>Notions used by the properties\<close>

text \<open>
  The rule of the specification for one image slot: the object URL of the stored asset
  when the identifier resolves in the asset store, the prior reference otherwise.
\<close>

definition resolve_or_fallback :: "Env \<Rightarrow> World \<Rightarrow> string \<Rightarrow> string \<Rightarrow> string" where
  "resolve_or_fallback env w ident prior =
     (case STORE_ASSETS w ident of Some b \<Rightarrow> createObjectURL env b | None \<Rightarrow> prior)"

section \<open>Example data\<close>

text \<open>
  The seed that the repository ships (data/initialData.ts: no star, no song, counter 0),
  and the seed that its comments give as an example of pasted data.
\<close>

definition shippedData :: InitialData where
  "shippedData = \<lparr>STATIC_STARS = [], STATIC_PLAYLIST = [], INITIAL_PLAYBACK_COUNT = 0\<rparr>"

definition exampleStar :: StarData where
  "exampleStar =
     \<lparr>star_id = 0, position = (5, 2, 5), images = [''/assets/my-photo.jpg''],
      imageAssetIds = None, star_text = Some ''This is a permanent memory.'',
      isActive = True, viewCount = 0\<rparr>"

definition exampleSong :: Song where
  "exampleSong =
     \<lparr>song_id = ''song-1'', name = ''My Favorite Song'', url = ''/assets/music/my-song.mp3'',
      assetId = None\<rparr>"

definition exampleData :: InitialData where
  "exampleData =
     \<lparr>STATIC_STARS = [exampleStar], STATIC_PLAYLIST = [exampleSong],
      INITIAL_PLAYBACK_COUNT = 0\<rparr>"

text \<open>
  A browser for the examples: it names an object URL after the payload, draws the
  identifiers u, uu, uuu, ... and r, rr, rrr, ..., can fetch one URL only, and its
  reader always succeeds.
\<close>

definition browser :: "InitialData \<Rightarrow> Env" where
  "browser d =
     \<lparr>initialData = d,
      randomPosition = (\<lambda>i. (0, 0, 0)),
      randomUUID = (\<lambda>n. replicate (Suc n) CHR ''u''),
      randomId = (\<lambda>n. replicate (Suc n) CHR ''r''),
      objectURL = (\<lambda>b. b),
      fetchBlob = (\<lambda>u. if u = ''blob:photo'' then Some ''photo'' else None),
      readAsDataURL = (\<lambda>b. Some (''image/png;base64,'' @ b))\<rparr>"

definition fullWorld :: World where
  "fullWorld = (App (browser exampleData) True True Map.empty Map.empty)
                 \<lparr>playlist := replicate 7 exampleSong, playbackCount := 25\<rparr>"

definition mp3 :: File where
  "mp3 = \<lparr>file_name = ''eighth.mp3'', file_blob = ''audio''\<rparr>"

definition twoStars :: World where
  "twoStars = (App (browser exampleData) True True Map.empty Map.empty)
                \<lparr>stars := [exampleStar, exampleStar\<lparr>star_id := 1, viewCount := 3\<rparr>]\<rparr>"

definition photoAssets :: "string \<rightharpoonup> blob" where
  "photoAssets = [''X'' \<mapsto> ''photo'']"

definition savedStar :: StarData where
  "savedStar =
     \<lparr>star_id = 0, position = (5, 2, 5), images = [''blob:stale'', ''/assets/b.jpg''],
      imageAssetIds = Some [''X'', ''Y''], star_text = Some ''two'', isActive = True,
      viewCount = 1\<rparr>"

definition savedDoc :: GameState where
  "savedDoc = \<lparr>stars = [savedStar], playlist = [], playbackCount = 0\<rparr>"

definition savedWorld :: World where
  "savedWorld = App (browser shippedData) True True photoAssets [''current'' \<mapsto> savedDoc]"

definition emptySlotStar :: StarData where
  "emptySlotStar =
     \<lparr>star_id = 0, position = (5, 2, 5), images = [[]],
      imageAssetIds = Some [''X''], star_text = None, isActive = True, viewCount = 0\<rparr>"

definition emptySlotDoc :: GameState where
  "emptySlotDoc = \<lparr>stars = [emptySlotStar], playlist = [], playbackCount = 0\<rparr>"

definition seedDoc :: GameState where
  "seedDoc = \<lparr>stars = [exampleStar], playlist = [exampleSong], playbackCount = 0\<rparr>"

definition mixedStar :: StarData where
  "mixedStar =
     \<lparr>star_id = 3, position = (1, 2, 3),
      images = [''blob:photo'', ''blob:gone'', ''data:image/png;base64,abc''],
      imageAssetIds = Some [''X'', ''Y'', []], star_text = Some ''three'', isActive = True,
      viewCount = 2\<rparr>"

definition mixedWorld :: World where
  "mixedWorld = (App (browser shippedData) True True photoAssets Map.empty)
                  \<lparr>stars := [mixedStar],
                   playlist := [exampleSong\<lparr>url := ''blob:song'', assetId := Some ''Z''\<rparr>]\<rparr>"

definition oftenSeen :: World where
  "oftenSeen = (App (browser exampleData) True True Map.empty Map.empty)
                 \<lparr>stars := [exampleStar\<lparr>viewCount := 9007199254740992\<rparr>]\<rparr>"

section \<open>Invariants of a session\<close>

text \<open>
  A property of stars holds of a state when it holds of every star of the live model and
  of every star of the Document in the store, if there is one.
\<close>

definition stored_ok :: "(StarData \<Rightarrow> bool) \<Rightarrow> (string \<rightharpoonup> GameState) \<Rightarrow> bool" where
  "stored_ok P st = (case st ''current'' of None \<Rightarrow> True | Some d \<Rightarrow> list_all P (stars d))"

definition stars_ok :: "(StarData \<Rightarrow> bool) \<Rightarrow> World \<Rightarrow> bool" where
  "stars_ok P w = (list_all P (stars w) \<and> stored_ok P (STORE_STATE w))"

text \<open>At most four images and at most four asset identifiers.\<close>

definition within4 :: "StarData \<Rightarrow> bool" where
  "within4 s =
     (length (images s) \<le> 4
      \<and> (case imageAssetIds s of None \<Rightarrow> True | Some ids \<Rightarrow> length ids \<le> 4))"

definition bounded :: "World \<Rightarrow> bool" where
  "bounded w = (length (tempImages w) \<le> 4 \<and> stars_ok within4 w)"

text \<open>
  Index alignment. An image reference is the handle of an identifier in an asset store
  when the identifier is the empty string (which stands for no identifier), or the store
  has no asset under it, or the reference is the object URL of the asset under it. A
  star is paired when it has no identifier list, or its image list and identifier list
  have the same length and the image reference at each index is the handle of the
  identifier at that index.
\<close>

definition handle_of :: "Env \<Rightarrow> (string \<rightharpoonup> blob) \<Rightarrow> string \<Rightarrow> string \<Rightarrow> bool" where
  "handle_of env as u a =
     (a = [] \<or> (case as a of None \<Rightarrow> True | Some b \<Rightarrow> u = createObjectURL env b))"

definition paired :: "Env \<Rightarrow> (string \<rightharpoonup> blob) \<Rightarrow> StarData \<Rightarrow> bool" where
  "paired env as s =
     (case imageAssetIds s of
        None \<Rightarrow> True
      | Some ids \<Rightarrow> list_all2 (handle_of env as) (images s) ids)"

text \<open>
  The weaker condition that a stored star must meet for the restore to keep it in order:
  lists of the same length where there is an identifier list, and no empty image
  reference.
\<close>

definition same_length :: "StarData \<Rightarrow> bool" where
  "same_length s =
     (case imageAssetIds s of None \<Rightarrow> True | Some ids \<Rightarrow> length (images s) = length ids)"

definition no_empty :: "StarData \<Rightarrow> bool" where
  "no_empty s = list_all (\<lambda>u. u \<noteq> []) (images s)"

text \<open>
  A pending image that carries a File shows the object URL of that File; any other shows
  the handle of the identifier it has.
\<close>

definition pending_ok :: "Env \<Rightarrow> (string \<rightharpoonup> blob) \<Rightarrow> TempImage \<Rightarrow> bool" where
  "pending_ok env as t =
     (img_url t \<noteq> []
      \<and> (case img_file t of
            Some f \<Rightarrow> img_url t = createObjectURL env (file_blob f)
          | None \<Rightarrow> handle_of env as (img_url t)
                      (case img_assetId t of None \<Rightarrow> [] | Some a \<Rightarrow> a)))"

text \<open>The identifiers that a state mentions.\<close>

definition star_ids :: "StarData \<Rightarrow> string set" where
  "star_ids s = (case imageAssetIds s of None \<Rightarrow> {} | Some ids \<Rightarrow> set ids)"

definition ids_of :: "StarData list \<Rightarrow> string set" where
  "ids_of ss = (\<Union>s \<in> set ss. star_ids s)"

definition stored_ids :: "(string \<rightharpoonup> GameState) \<Rightarrow> string set" where
  "stored_ids st = (case st ''current'' of None \<Rightarrow> {} | Some d \<Rightarrow> ids_of (stars d))"

definition pending_ids :: "TempImage list \<Rightarrow> string set" where
  "pending_ids ts = {a. \<exists>t \<in> set ts. img_assetId t = Some a}"

text \<open>
  The Document in the store is in order when its stars have lists of the same length and
  either it is still the Document \<open>d0\<close> found at startup, without empty image
  reference, or its stars are paired.
\<close>

definition persisted_ok ::
  "Env \<Rightarrow> GameState option \<Rightarrow> (string \<rightharpoonup> blob) \<Rightarrow> GameState option \<Rightarrow> bool" where
  "persisted_ok env d0 as cur =
     (case cur of
        None \<Rightarrow> True
      | Some d \<Rightarrow>
          list_all same_length (stars d)
          \<and> (cur = d0 \<and> list_all no_empty (stars d)
               \<or> list_all (\<lambda>s. paired env as s \<and> no_empty s) (stars d)))"

text \<open>
  The invariant of a session: the stars of the live model are paired and have no empty
  image reference, the Document is in order, the pending images are in order, and no
  identifier still to be drawn is mentioned anywhere.
\<close>

definition linked :: "Env \<Rightarrow> GameState option \<Rightarrow> World \<Rightarrow> bool" where
  "linked env d0 w =
     (list_all (\<lambda>s. paired env (STORE_ASSETS w) s \<and> no_empty s) (stars w)
      \<and> persisted_ok env d0 (STORE_ASSETS w) (STORE_STATE w ''current'')
      \<and> list_all (pending_ok env (STORE_ASSETS w)) (tempImages w)
      \<and> (\<forall>n\<ge>rng w. randomUUID env n
             \<notin> ids_of (stars w) \<union> stored_ids (STORE_STATE w) \<union> pending_ids (tempImages w)))"

text \<open>
  Index alignment of a state, given the store \<open>st\<close> found at startup: the stars of
  the live model are paired, the stars of the persisted Document have lists of the same
  length and, unless the Document is still the one found at startup, are paired.
\<close>

definition index_aligned :: "Env \<Rightarrow> (string \<rightharpoonup> GameState) \<Rightarrow> World \<Rightarrow> bool" where
  "index_aligned env st w =
     (list_all (paired env (STORE_ASSETS w)) (stars w)
      \<and> stored_ok same_length (STORE_STATE w)
      \<and> (STORE_STATE w ''current'' = st ''current''
           \<or> stored_ok (paired env (STORE_ASSETS w)) (STORE_STATE w)))"

section \<open>Example data for the invariants\<close>

definition fiveStar :: StarData where
  "fiveStar = exampleStar\<lparr>images := [''/a1.jpg'', ''/a2.jpg'', ''/a3.jpg'', ''/a4.jpg'', ''/a5.jpg'']\<rparr>"

definition fiveData :: InitialData where
  "fiveData = \<lparr>STATIC_STARS = [fiveStar], STATIC_PLAYLIST = [], INITIAL_PLAYBACK_COUNT = 0\<rparr>"

definition sixFiles :: "File list" where
  "sixFiles = map (\<lambda>n. \<lparr>file_name = n, file_blob = n\<rparr>) [''a'', ''b'', ''c'', ''d'', ''e'', ''f'']"

definition twoFiles :: "File list" where
  "twoFiles = [\<lparr>file_name = ''a.jpg'', file_blob = ''a''\<rparr>, \<lparr>file_name = ''b.jpg'', file_blob = ''b''\<rparr>]"

definition pendingWorld :: World where
  "pendingWorld =
     (App (browser shippedData) True True Map.empty Map.empty)
       \<lparr>stars := [exampleStar\<lparr>images := [], isActive := False, star_text := None\<rparr>],
        editingStarId := Some 0,
        tempImages := [\<lparr>img_url = ''blob:a'', img_file = Some \<lparr>file_name = ''a.jpg'', file_blob = ''a''\<rparr>,
                         img_assetId = None\<rparr>,
                       \<lparr>img_url = ''/assets/b.jpg'', img_file = None, img_assetId = None\<rparr>]\<rparr>"

definition clickWorld :: World where
  "clickWorld = (App (browser exampleData) True True photoAssets Map.empty)\<lparr>stars := [savedStar]\<rparr>"

definition savedStore :: "string \<rightharpoonup> GameState" where
  "savedStore = [''current'' \<mapsto> savedDoc]"

section \<open>Evaluation of the examples\<close>

lemmas eval_defs = init_part_001_def init_part_000_def loadGameState_def saveGameState_def
  restore_def restoreStar_def restoreSong_def getAsset_def App_def browser_def
  createObjectURL_def Let_def

lemmas data_defs = shippedData_def exampleData_def exampleStar_def exampleSong_def

section \<open>The unlock flag and the playlist quota\<close>

text \<open>
  C7. The continuous-playback flag is the predicate counter >= 60: whatever the rest of
  the state, it is false at counter 59 and true at counter 60.
\<close>

theorem unlock_threshold:
  "isContinuousPlayUnlocked w = (playbackCount w \<ge> 60)
   \<and> \<not> isContinuousPlayUnlocked (w\<lparr>playbackCount := 59\<rparr>)
   \<and> isContinuousPlayUnlocked (w\<lparr>playbackCount := 60\<rparr>)"
  by (simp add: isContinuousPlayUnlocked_def)

text \<open>
  C4. The capacity of the playlist is min(10, 5 + floor(counter / 10)) (integer division
  rounds down, as Math.floor does), which is 7 at counter 25. An upload attempted when
  the playlist has reached the capacity only raises the alert: the stars, the playlist,
  the counter, both stores and every other part of the state stay as they were.
\<close>

theorem playlist_quota:
  "maxPlaylistSize w = min 10 (5 + playbackCount w div 10)
   \<and> maxPlaylistSize (w\<lparr>playbackCount := 25\<rparr>) = 7
   \<and> (int (length (playlist w)) \<ge> maxPlaylistSize w \<longrightarrow>
        handleMusicUpload env (Some file) w
          = w\<lparr>alerts := alerts w @ [PlaylistFull (maxPlaylistSize w)]\<rparr>)"
  by (simp add: maxPlaylistSize_def handleMusicUpload_def Let_def)

theorem playlist_quota_witness:
  "maxPlaylistSize fullWorld = 7 \<and> length (playlist fullWorld) = 7
   \<and> handleMusicUpload (browser exampleData) (Some mp3) fullWorld
       = fullWorld\<lparr>alerts := [PlaylistFull 7]\<rparr>
   \<and> length (playlist (handleMusicUpload (browser exampleData) (Some mp3) fullWorld)) = 7"
proof -
  have cap: "maxPlaylistSize fullWorld = 7" and len: "length (playlist fullWorld) = 7"
    and al: "alerts fullWorld = []"
    by (simp_all add: fullWorld_def App_def maxPlaylistSize_def)
  have full: "int (length (playlist fullWorld)) \<ge> maxPlaylistSize fullWorld"
    using cap len by simp
  from playlist_quota [of fullWorld "browser exampleData" mp3] full
  have "handleMusicUpload (browser exampleData) (Some mp3) fullWorld
          = fullWorld\<lparr>alerts := alerts fullWorld @ [PlaylistFull (maxPlaylistSize fullWorld)]\<rparr>"
    by blast
  then show ?thesis using cap len al by simp
qed

section \<open>The Document Store\<close>

text \<open>
  C8. While the database answers, saving a Document twice leaves the store as the first
  save left it, and load returns that Document after the first save and after the second.
  The record is written under the one key current and nowhere else, so a store that had
  no other key has exactly this one; a later save of another Document replaces it whole.
\<close>

theorem save_twice_load:
  assumes "dbOk w"
  shows "\<exists>w1. saveGameState d w = Inr w1
          \<and> loadGameState w1 = Inr (Some d)
          \<and> saveGameState d w1 = Inr w1
          \<and> dom (STORE_STATE w1) = insert ''current'' (dom (STORE_STATE w))
          \<and> (dom (STORE_STATE w) \<subseteq> {''current''} \<longrightarrow> dom (STORE_STATE w1) = {''current''})
          \<and> (\<exists>w2. saveGameState d' w1 = Inr w2
                  \<and> loadGameState w2 = Inr (Some d')
                  \<and> STORE_STATE w2 = (STORE_STATE w)(''current'' \<mapsto> d'))"
  using assms by (auto simp add: saveGameState_def loadGameState_def)

theorem save_twice_load_witness:
  "dbOk savedWorld
   \<and> (\<exists>w1. saveGameState seedDoc savedWorld = Inr w1 \<and> loadGameState w1 = Inr (Some seedDoc)
           \<and> saveGameState seedDoc w1 = Inr w1 \<and> dom (STORE_STATE w1) = {''current''})"
proof -
  have h: "dbOk savedWorld" by (simp add: savedWorld_def App_def)
  have d: "dom (STORE_STATE savedWorld) = {''current''}" by (simp add: savedWorld_def App_def)
  from save_twice_load [OF h, of seedDoc seedDoc] d h show ?thesis
    by auto
qed

section \<open>Viewing a star\<close>

text \<open>
  C10, as the code has it. handleStarView changes nothing but the view counter of each
  star whose id is the given id: every other star, every other field of those stars, the
  playlist and the counter stay as they were, and no alert is raised. The new view
  counter is the old one plus one whenever the old one is an integer from -2^53 to
  2^53 - 1. When no star has the id, the list of stars is unchanged.
\<close>

theorem handleStarView_frame:
  "length (stars (handleStarView i w)) = length (stars w)
   \<and> (\<forall>j<length (stars w).
         (star_id (stars w ! j) \<noteq> i \<longrightarrow> stars (handleStarView i w) ! j = stars w ! j)
         \<and> (star_id (stars w ! j) = i \<longrightarrow>
               stars (handleStarView i w) ! j
                 = (stars w ! j)\<lparr>viewCount := viewCount (stars (handleStarView i w) ! j)\<rparr>
               \<and> (- (2 ^ 53) \<le> viewCount (stars w ! j) \<and> viewCount (stars w ! j) < 2 ^ 53 \<longrightarrow>
                     viewCount (stars (handleStarView i w) ! j) = viewCount (stars w ! j) + 1)))
   \<and> playlist (handleStarView i w) = playlist w
   \<and> playbackCount (handleStarView i w) = playbackCount w
   \<and> alerts (handleStarView i w) = alerts w
   \<and> ((\<forall>s \<in> set (stars w). star_id s \<noteq> i) \<longrightarrow> stars (handleStarView i w) = stars w)"
  by (auto simp add: handleStarView_def saveGame_def saveGameState_def Let_def map_idI plus1_def)

theorem handleStarView_frame_witness:
  "map viewCount (stars twoStars) = [0, 3]
   \<and> map viewCount (stars (handleStarView 1 twoStars)) = [0, 4]
   \<and> stars (handleStarView 7 twoStars) = stars twoStars"
proof -
  have n: "length (stars twoStars) = 2" "star_id (stars twoStars ! 0) = 0"
    "star_id (stars twoStars ! 1) = 1" "viewCount (stars twoStars ! 0) = 0"
    "viewCount (stars twoStars ! 1) = 3" "\<forall>s \<in> set (stars twoStars). star_id s \<noteq> 7"
    by (simp_all add: twoStars_def App_def exampleStar_def)
  note f = handleStarView_frame [of 1 twoStars] handleStarView_frame [of 7 twoStars]
  have a: "stars (handleStarView 1 twoStars) ! 0 = stars twoStars ! 0"
    "viewCount (stars (handleStarView 1 twoStars) ! 1) = 4"
    using f(1) n by simp_all
  have l: "length (stars (handleStarView 1 twoStars)) = 2" using f(1) n by simp
  have "map viewCount (stars (handleStarView 1 twoStars)) = [0, 4]"
    using a l n by (intro nth_equalityI) (auto simp: less_Suc_eq numeral_2_eq_2)
  moreover have "stars (handleStarView 7 twoStars) = stars twoStars" using f(2) n by blast
  moreover have "map viewCount (stars twoStars) = [0, 3]"
    by (simp add: twoStars_def App_def exampleStar_def)
  ultimately show ?thesis by simp
qed

text \<open>
  C10 as stated fails at the end of the exact range: a star whose view counter is 2^53
  (9007199254740992) has the same view counter after handleStarView.
\<close>

theorem handleStarView_frame_counterexample:
  "star_id (stars oftenSeen ! 0) = 0
   \<and> viewCount (stars oftenSeen ! 0) = 9007199254740992
   \<and> viewCount (stars (handleStarView 0 oftenSeen) ! 0) = 9007199254740992"
  by (simp add: oftenSeen_def App_def exampleStar_def handleStarView_def saveGame_def
        saveGameState_def plus1_def Let_def)

section \<open>Reconciliation of a loaded Document\<close>

lemma createObjectURL_nonempty [simp]: "createObjectURL env b \<noteq> []"
  by (simp add: createObjectURL_def)

lemma Promise_all_Inr:
  "(\<And>x. x \<in> set xs \<Longrightarrow> f x = Inr (g x)) \<Longrightarrow> Promise_all (map f xs) = Inr (map g xs)"
  by (induction xs) auto

lemma Promise_all_getAsset:
  "dbOk w \<Longrightarrow> Promise_all (map (\<lambda>i. getAsset i w) ids) = Inr (map (STORE_ASSETS w) ids)"
  by (rule Promise_all_Inr) (simp add: getAsset_def)

lemma Promise_all_total:
  "(\<And>x. x \<in> set xs \<Longrightarrow> \<exists>y. f x = Inr y) \<Longrightarrow>
   \<exists>ys. Promise_all (map f xs) = Inr ys \<and> length ys = length xs
        \<and> (\<forall>j<length xs. f (xs ! j) = Inr (ys ! j))"
proof (induction xs)
  case Nil
  then show ?case by simp
next
  case (Cons x xs)
  from Cons.prems obtain y where y: "f x = Inr y" by auto
  from Cons obtain ys where ys: "Promise_all (map f xs) = Inr ys" "length ys = length xs"
    "\<forall>j<length xs. f (xs ! j) = Inr (ys ! j)" by auto
  have "\<forall>j<length (x # xs). f ((x # xs) ! j) = Inr ((y # ys) ! j)"
    using y ys(3) by (auto simp: nth_Cons split: nat.splits)
  then show ?case using y ys by auto
qed

text \<open>A star without asset identifiers is returned as it is.\<close>

lemma restoreStar_plain:
  "imageAssetIds s = None \<or> imageAssetIds s = Some [] \<Longrightarrow> restoreStar env w s = Inr s"
  by (auto simp: restoreStar_def)

text \<open>
  With identifiers, the images are the slots of the old image list, each replaced by the
  object URL of its identifier's asset when there is one, with the empty slots removed.
\<close>

lemma restoreStar_ids:
  assumes "dbOk w" "imageAssetIds s = Some ids" "ids \<noteq> []"
  shows "restoreStar env w s =
           Inr (s\<lparr>images := filter (\<lambda>u. u \<noteq> [])
                  (map (\<lambda>(i, original).
                          if i < length (map (\<lambda>x. resolve_or_fallback env w x []) ids)
                             \<and> map (\<lambda>x. resolve_or_fallback env w x []) ids ! i \<noteq> []
                          then map (\<lambda>x. resolve_or_fallback env w x []) ids ! i else original)
                       (enumerate 0 (images s)))\<rparr>)"
  using assms
  by (simp add: restoreStar_def Promise_all_getAsset Let_def resolve_or_fallback_def comp_def)

lemma slots_aligned:
  assumes "length imgs = length ids"
  shows "map (\<lambda>(i, original).
                if i < length (map (\<lambda>x. resolve_or_fallback env w x []) ids)
                   \<and> map (\<lambda>x. resolve_or_fallback env w x []) ids ! i \<noteq> []
                then map (\<lambda>x. resolve_or_fallback env w x []) ids ! i else original)
             (enumerate 0 imgs)
         = map2 (resolve_or_fallback env w) ids imgs"
  using assms
  by (intro nth_equalityI) (auto simp: nth_enumerate_eq resolve_or_fallback_def split: option.splits)

lemma restoreStar_total: "dbOk w \<Longrightarrow> \<exists>s'. restoreStar env w s = Inr s'"
  by (cases "imageAssetIds s"; cases "the (imageAssetIds s) = []")
     (auto simp: restoreStar_plain restoreStar_ids)

lemma restoreSong_total: "dbOk w \<Longrightarrow> \<exists>s'. restoreSong env w s = Inr s'"
  by (auto simp: restoreSong_def getAsset_def split: option.splits)

lemma restore_stars:
  assumes "dbOk w"
  shows "length (stars (restore env d w)) = length (stars d)
         \<and> (\<forall>j<length (stars d). restoreStar env w (stars d ! j) = Inr (stars (restore env d w) ! j))"
proof -
  obtain rs where rs: "Promise_all (map (restoreStar env w) (stars d)) = Inr rs"
    "length rs = length (stars d)" "\<forall>j<length (stars d). restoreStar env w (stars d ! j) = Inr (rs ! j)"
    using Promise_all_total [of "stars d" "restoreStar env w"] restoreStar_total [OF assms] by blast
  obtain rp where rp: "Promise_all (map (restoreSong env w) (playlist d)) = Inr rp"
    using Promise_all_total [of "playlist d" "restoreSong env w"] restoreSong_total [OF assms] by blast
  show ?thesis using rs rp by (simp add: restore_def)
qed

lemma init_loaded:
  assumes "dbOk w" "STORE_STATE w ''current'' = Some d"
  shows "init_part_001 env w = (restore env d w)\<lparr>isDataLoaded := True\<rparr>"
    and "init_part_000 env w = (restore env d w)\<lparr>isDataLoaded := True\<rparr>"
  using assms by (simp_all add: init_part_001_def init_part_000_def loadGameState_def)

text \<open>
  C1, as the code has it. Both variants of init restore a loaded Document alike, star by
  star. A star without asset identifiers keeps its image list. For a star with k >= 1
  asset identifiers and an image list of the same length k, the restored image list is
  the list of its k slots, each the object URL of the identifier's asset when the asset
  store has it and the prior image reference otherwise, with the empty slots removed. So
  its length is at most k, no slot of it is empty, and when no slot has both a missing
  asset and an empty prior reference its length is k and slot i is the resolution of
  identifier i or else prior reference i.
\<close>

theorem reconcile_images:
  assumes "dbOk w" and "STORE_STATE w ''current'' = Some d" and "j < length (stars d)"
  shows "stars (init_part_000 env w) = stars (init_part_001 env w)
     \<and> length (stars (init_part_001 env w)) = length (stars d)
     \<and> (imageAssetIds (stars d ! j) = None \<or> imageAssetIds (stars d ! j) = Some [] \<longrightarrow>
          images (stars (init_part_001 env w) ! j) = images (stars d ! j))
     \<and> (\<forall>ids. imageAssetIds (stars d ! j) = Some ids \<and> ids \<noteq> []
             \<and> length (images (stars d ! j)) = length ids \<longrightarrow>
          images (stars (init_part_001 env w) ! j)
            = filter (\<lambda>u. u \<noteq> []) (map2 (resolve_or_fallback env w) ids (images (stars d ! j)))
          \<and> length (images (stars (init_part_001 env w) ! j)) \<le> length ids
          \<and> [] \<notin> set (images (stars (init_part_001 env w) ! j))
          \<and> ((\<forall>i<length ids. resolve_or_fallback env w (ids ! i) (images (stars d ! j) ! i) \<noteq> []) \<longrightarrow>
                length (images (stars (init_part_001 env w) ! j)) = length ids
                \<and> (\<forall>i<length ids. images (stars (init_part_001 env w) ! j) ! i
                      = resolve_or_fallback env w (ids ! i) (images (stars d ! j) ! i))))"
proof -
  let ?s = "stars d ! j" and ?r = "stars (init_part_001 env w) ! j"
  have same: "stars (init_part_000 env w) = stars (init_part_001 env w)"
    using assms by (simp add: init_loaded)
  have st: "stars (init_part_001 env w) = stars (restore env d w)"
    using assms by (simp add: init_loaded)
  have len: "length (stars (init_part_001 env w)) = length (stars d)"
    using restore_stars [OF assms(1)] st by simp
  have r: "restoreStar env w ?s = Inr ?r"
    using restore_stars [OF assms(1), of env d] assms(3) st by simp
  have plain: "imageAssetIds ?s = None \<or> imageAssetIds ?s = Some [] \<longrightarrow> images ?r = images ?s"
    using r restoreStar_plain [of ?s env w] by auto
  have aligned: "images ?r = filter (\<lambda>u. u \<noteq> []) (map2 (resolve_or_fallback env w) ids (images ?s))"
    if "imageAssetIds ?s = Some ids" "ids \<noteq> []" "length (images ?s) = length ids" for ids
  proof -
    have "Inr ?r = Inr (?s\<lparr>images := filter (\<lambda>u. u \<noteq> [])
                     (map2 (resolve_or_fallback env w) ids (images ?s))\<rparr>) "
      using r restoreStar_ids [OF assms(1) that(1,2), of env] slots_aligned [OF that(3), of env w]
      by simp
    then have "?r = ?s\<lparr>images := filter (\<lambda>u. u \<noteq> [])
                     (map2 (resolve_or_fallback env w) ids (images ?s))\<rparr>"
      by (simp only: sum.inject)
    then show ?thesis by simp
  qed
  have full: "filter (\<lambda>u. u \<noteq> []) xs = xs" if "\<forall>i<length xs. xs ! i \<noteq> []" for xs :: "string list"
    using that by (auto simp add: filter_id_conv in_set_conv_nth)
  show ?thesis
  proof (intro conjI allI impI)
    fix ids
    assume h: "imageAssetIds ?s = Some ids \<and> ids \<noteq> [] \<and> length (images ?s) = length ids"
    then have a: "images ?r = filter (\<lambda>u. u \<noteq> []) (map2 (resolve_or_fallback env w) ids (images ?s))"
      using aligned by blast
    show "images ?r = filter (\<lambda>u. u \<noteq> []) (map2 (resolve_or_fallback env w) ids (images ?s))"
      by (rule a)
    have "length (images ?r) \<le> length (map2 (resolve_or_fallback env w) ids (images ?s))"
      unfolding a by (rule length_filter_le)
    then show "length (images ?r) \<le> length ids" using h by simp
    show "[] \<notin> set (images ?r)" unfolding a by simp
    assume all: "\<forall>i<length ids. resolve_or_fallback env w (ids ! i) (images ?s ! i) \<noteq> []"
    have "images ?r = map2 (resolve_or_fallback env w) ids (images ?s)"
      unfolding a using all h by (intro full) simp
    then show "length (images ?r) = length ids"
      and "\<And>i. i < length ids \<Longrightarrow> images ?r ! i = resolve_or_fallback env w (ids ! i) (images ?s ! i)"
      using h by simp_all
  qed (use same len plain in auto)
qed

theorem reconcile_images_witness:
  "dbOk savedWorld \<and> STORE_STATE savedWorld ''current'' = Some savedDoc
   \<and> imageAssetIds (stars savedDoc ! 0) = Some [''X'', ''Y'']
   \<and> images (stars (init_part_001 (browser shippedData) savedWorld) ! 0)
       = [''blob:photo'', ''/assets/b.jpg'']"
proof -
  have h: "dbOk savedWorld" "STORE_STATE savedWorld ''current'' = Some savedDoc"
    "0 < length (stars savedDoc)"
    by (simp_all add: savedWorld_def App_def savedDoc_def)
  have ids: "imageAssetIds (stars savedDoc ! 0) = Some [''X'', ''Y''] \<and> [''X'', ''Y''] \<noteq> []
             \<and> length (images (stars savedDoc ! 0)) = length [''X'', ''Y'']"
    by (simp add: savedDoc_def savedStar_def)
  from reconcile_images [OF h, of "browser shippedData"] ids
  have "images (stars (init_part_001 (browser shippedData) savedWorld) ! 0)
          = filter (\<lambda>u. u \<noteq> [])
              (map2 (resolve_or_fallback (browser shippedData) savedWorld) [''X'', ''Y'']
                    (images (stars savedDoc ! 0)))"
    by blast
  then show ?thesis
    using h ids
    by (simp add: savedDoc_def savedStar_def savedWorld_def App_def photoAssets_def
          resolve_or_fallback_def createObjectURL_def browser_def)
qed

text \<open>
  C1 as stated fails. A stored star with the one identifier X, which the asset store does
  not have, and the one empty image reference is restored with no image at all: length 0,
  not 1. The example star of the seed, stored without identifiers, is restored with its
  one image: length 1, not 0.
\<close>

theorem reconcile_length_counterexample:
  "imageAssetIds emptySlotStar = Some [''X'']
   \<and> images (stars (init_part_001 (browser shippedData)
                (App (browser shippedData) True True Map.empty [''current'' \<mapsto> emptySlotDoc])) ! 0) = []
   \<and> imageAssetIds exampleStar = None
   \<and> images (stars (init_part_001 (browser exampleData)
                (App (browser exampleData) True True Map.empty [''current'' \<mapsto> seedDoc])) ! 0)
       = [''/assets/my-photo.jpg'']"
  by (simp add: eval_defs data_defs emptySlotDoc_def emptySlotStar_def seedDoc_def)

section \<open>The first run\<close>

text \<open>
  C3, as the code has it. In the variant of App whose init has a branch for a store
  without a Document, a first run over a database that answers and a seed with at least
  one star saves the seed (its stars, playlist and counter) as the Document, and changes
  nothing else but the loaded flag. The init of the other variant only sets the loaded
  flag.
\<close>

theorem first_run_saves_seed:
  assumes "dbOk w" and "STORE_STATE w ''current'' = None"
    and "STATIC_STARS (initialData env) \<noteq> []"
  shows "init_part_000 env w =
           w\<lparr>STORE_STATE := (STORE_STATE w)(''current'' \<mapsto>
                 \<lparr>stars = STATIC_STARS (initialData env),
                  playlist = STATIC_PLAYLIST (initialData env),
                  playbackCount = INITIAL_PLAYBACK_COUNT (initialData env)\<rparr>),
             isDataLoaded := True\<rparr>
         \<and> loadGameState (init_part_000 env w) =
             Inr (Some \<lparr>stars = STATIC_STARS (initialData env),
                        playlist = STATIC_PLAYLIST (initialData env),
                        playbackCount = INITIAL_PLAYBACK_COUNT (initialData env)\<rparr>)
         \<and> init_part_001 env w = w\<lparr>isDataLoaded := True\<rparr>"
  using assms
  by (simp add: init_part_000_def init_part_001_def loadGameState_def saveGameState_def)

theorem first_run_saves_seed_witness:
  "STATIC_STARS (initialData (browser exampleData)) = [exampleStar]
   \<and> loadGameState (init_part_000 (browser exampleData)
        (App (browser exampleData) True True Map.empty Map.empty)) = Inr (Some seedDoc)"
proof -
  let ?e = "browser exampleData" and ?w = "App (browser exampleData) True True Map.empty Map.empty"
  have h: "dbOk ?w" "STORE_STATE ?w ''current'' = None" "STATIC_STARS (initialData ?e) \<noteq> []"
    by (simp_all add: App_def browser_def exampleData_def)
  from first_run_saves_seed [OF h]
  have "loadGameState (init_part_000 ?e ?w) =
          Inr (Some \<lparr>stars = STATIC_STARS (initialData ?e),
                     playlist = STATIC_PLAYLIST (initialData ?e),
                     playbackCount = INITIAL_PLAYBACK_COUNT (initialData ?e)\<rparr>)"
    by blast
  then show ?thesis by (simp add: browser_def exampleData_def seedDoc_def)
qed

text \<open>
  C3 as stated fails for the variant of App that exports inline data: with the example
  seed of one star and an empty store, the store still holds no Document after init.
\<close>

theorem first_run_no_save_counterexample:
  "STATIC_STARS (initialData (browser exampleData)) = [exampleStar]
   \<and> loadGameState (App (browser exampleData) True True Map.empty Map.empty) = Inr None
   \<and> loadGameState (init_part_001 (browser exampleData)
        (App (browser exampleData) True True Map.empty Map.empty)) = Inr None"
  by (simp add: eval_defs data_defs)

section \<open>The export\<close>

text \<open>
  C6. Whenever the clipboard can be written, the export completes, whatever fetch and the
  reader do: every star and song is exported, each image slot is the result of
  urlToBase64 on that slot alone, which is the inline form when fetch and reader succeed
  and the slot's own reference when the reference is already inline or fetch or the
  reader fails; and no exported star or song carries an asset identifier.
\<close>

theorem export_isolates_failures:
  assumes "clipboardOk w"
  shows "\<exists>ex. clipboard (handleExportData env w) = Some ex
     \<and> alerts (handleExportData env w) = alerts w @ [DataCopied]
     \<and> length (STATIC_STARS ex) = length (stars w)
     \<and> (\<forall>j<length (stars w).
          imageAssetIds (STATIC_STARS ex ! j) = None
          \<and> length (images (STATIC_STARS ex ! j)) = length (images (stars w ! j))
          \<and> (\<forall>i<length (images (stars w ! j)).
               images (STATIC_STARS ex ! j) ! i = urlToBase64 env (images (stars w ! j) ! i)))
     \<and> length (STATIC_PLAYLIST ex) = length (playlist w)
     \<and> (\<forall>j<length (playlist w).
          assetId (STATIC_PLAYLIST ex ! j) = None
          \<and> url (STATIC_PLAYLIST ex ! j) = urlToBase64 env (url (playlist w ! j)))
     \<and> (\<forall>u. startsWith u ''data:'' \<longrightarrow> urlToBase64 env u = u)
     \<and> (\<forall>u. fetchBlob env u = None \<longrightarrow> urlToBase64 env u = u)
     \<and> (\<forall>u b. fetchBlob env u = Some b \<and> readAsDataURL env b = None \<longrightarrow> urlToBase64 env u = u)
     \<and> (\<forall>u b r. \<not> startsWith u ''data:'' \<and> fetchBlob env u = Some b
                  \<and> readAsDataURL env b = Some r \<longrightarrow> urlToBase64 env u = ''data:'' @ r)"
proof -
  let ?ex = "\<lparr>STATIC_STARS =
                 map (\<lambda>s. s\<lparr>images := map (urlToBase64 env) (images s), imageAssetIds := None\<rparr>)
                     (stars w),
               STATIC_PLAYLIST =
                 map (\<lambda>s. \<lparr>song_id = song_id s, name = name s, url = urlToBase64 env (url s),
                            assetId = None\<rparr>)
                     (playlist w),
               INITIAL_PLAYBACK_COUNT = playbackCount w\<rparr>"
  have same: "(if \<not> startsWith u ''data:'' then urlToBase64 env u else u) = urlToBase64 env u" for u
    by (simp add: urlToBase64_def)
  have ex: "handleExportData env w = w\<lparr>clipboard := Some ?ex, alerts := alerts w @ [DataCopied]\<rparr>"
    using assms by (simp add: handleExportData_def Let_def same)
  have cases: "(\<forall>u. startsWith u ''data:'' \<longrightarrow> urlToBase64 env u = u)
     \<and> (\<forall>u. fetchBlob env u = None \<longrightarrow> urlToBase64 env u = u)
     \<and> (\<forall>u b. fetchBlob env u = Some b \<and> readAsDataURL env b = None \<longrightarrow> urlToBase64 env u = u)
     \<and> (\<forall>u b r. \<not> startsWith u ''data:'' \<and> fetchBlob env u = Some b
                  \<and> readAsDataURL env b = Some r \<longrightarrow> urlToBase64 env u = ''data:'' @ r)"
    by (auto simp add: urlToBase64_def)
  have c1: "clipboard (handleExportData env w) = Some ?ex"
    and c2: "alerts (handleExportData env w) = alerts w @ [DataCopied]"
    by (simp_all add: ex)
  have c3: "length (STATIC_STARS ?ex) = length (stars w)"
    and c4: "length (STATIC_PLAYLIST ?ex) = length (playlist w)"
    by simp_all
  have c5: "\<forall>j<length (stars w).
          imageAssetIds (STATIC_STARS ?ex ! j) = None
          \<and> length (images (STATIC_STARS ?ex ! j)) = length (images (stars w ! j))
          \<and> (\<forall>i<length (images (stars w ! j)).
               images (STATIC_STARS ?ex ! j) ! i = urlToBase64 env (images (stars w ! j) ! i))"
    by simp
  have c6: "\<forall>j<length (playlist w).
          assetId (STATIC_PLAYLIST ?ex ! j) = None
          \<and> url (STATIC_PLAYLIST ?ex ! j) = urlToBase64 env (url (playlist w ! j))"
    by simp
  show ?thesis
    by (rule exI [of _ ?ex]) (intro conjI c1 c2 c3 c4 c5 c6 cases [THEN conjunct1]
          cases [THEN conjunct2, THEN conjunct1]
          cases [THEN conjunct2, THEN conjunct2, THEN conjunct1]
          cases [THEN conjunct2, THEN conjunct2, THEN conjunct2])
qed

theorem export_isolates_failures_witness:
  "clipboardOk mixedWorld
   \<and> (\<exists>ex. clipboard (handleExportData (browser shippedData) mixedWorld) = Some ex
         \<and> length (images (STATIC_STARS ex ! 0)) = 3
         \<and> images (STATIC_STARS ex ! 0) ! 0 = ''data:image/png;base64,photo''
         \<and> images (STATIC_STARS ex ! 0) ! 1 = ''blob:gone''
         \<and> images (STATIC_STARS ex ! 0) ! 2 = ''data:image/png;base64,abc''
         \<and> imageAssetIds (STATIC_STARS ex ! 0) = None
         \<and> url (STATIC_PLAYLIST ex ! 0) = ''blob:song''
         \<and> assetId (STATIC_PLAYLIST ex ! 0) = None)"
proof -
  let ?e = "browser shippedData"
  have h: "clipboardOk mixedWorld" by (simp add: mixedWorld_def App_def)
  have s: "0 < length (stars mixedWorld)" "0 < length (playlist mixedWorld)"
    and im: "images (stars mixedWorld ! 0)
               = [''blob:photo'', ''blob:gone'', ''data:image/png;base64,abc'']"
    and pl: "url (playlist mixedWorld ! 0) = ''blob:song''"
    by (simp_all add: mixedWorld_def mixedStar_def App_def exampleSong_def)
  have u: "urlToBase64 ?e ''blob:photo'' = ''data:image/png;base64,photo''"
    "urlToBase64 ?e ''blob:gone'' = ''blob:gone''"
    "urlToBase64 ?e ''data:image/png;base64,abc'' = ''data:image/png;base64,abc''"
    "urlToBase64 ?e ''blob:song'' = ''blob:song''"
    by (simp_all add: urlToBase64_def startsWith_def browser_def)
  from export_isolates_failures [OF h, of ?e]
  obtain ex where ex: "clipboard (handleExportData ?e mixedWorld) = Some ex"
    and st: "\<forall>j<length (stars mixedWorld).
          imageAssetIds (STATIC_STARS ex ! j) = None
          \<and> length (images (STATIC_STARS ex ! j)) = length (images (stars mixedWorld ! j))
          \<and> (\<forall>i<length (images (stars mixedWorld ! j)).
               images (STATIC_STARS ex ! j) ! i = urlToBase64 ?e (images (stars mixedWorld ! j) ! i))"
    and sg: "\<forall>j<length (playlist mixedWorld).
          assetId (STATIC_PLAYLIST ex ! j) = None
          \<and> url (STATIC_PLAYLIST ex ! j) = urlToBase64 ?e (url (playlist mixedWorld ! j))"
    by (elim exE conjE) (rule that, assumption+)
  from st s(1) have n: "imageAssetIds (STATIC_STARS ex ! 0) = None"
    and l: "length (images (STATIC_STARS ex ! 0)) = length (images (stars mixedWorld ! 0))"
    and i: "\<forall>i<length (images (stars mixedWorld ! 0)).
               images (STATIC_STARS ex ! 0) ! i = urlToBase64 ?e (images (stars mixedWorld ! 0) ! i)"
    by blast+
  have l3: "length (images (STATIC_STARS ex ! 0)) = 3" using l by (simp add: im)
  have i0: "images (STATIC_STARS ex ! 0) ! 0 = ''data:image/png;base64,photo''"
    using i [rule_format, of 0] by (simp add: im u)
  have i1: "images (STATIC_STARS ex ! 0) ! 1 = ''blob:gone''"
    using i [rule_format, of 1] by (simp add: im u)
  have i2: "images (STATIC_STARS ex ! 0) ! 2 = ''data:image/png;base64,abc''"
    using i [rule_format, of 2] by (simp add: im u)
  from sg s(2) have p: "assetId (STATIC_PLAYLIST ex ! 0) = None"
    "url (STATIC_PLAYLIST ex ! 0) = urlToBase64 ?e (url (playlist mixedWorld ! 0))"
    by blast+
  have p2: "url (STATIC_PLAYLIST ex ! 0) = ''blob:song''" using p(2) by (simp add: pl u)
  show ?thesis
    by (intro conjI h exI [of _ ex] ex l3 i0 i1 i2 n p2 p(1))
qed

text \<open>
  C5, as the code has it. On a first run (no Document in the store) with a seed that has
  at least one star and a clipboard that can be written, the export of the state that
  init leaves has the seed's stars in order with the same ids, positions, texts,
  activation flags, view counts and numbers of images, the seed's songs with the same ids
  and names, and the seed's counter.
\<close>

theorem export_roundtrip:
  assumes "STATIC_STARS (initialData env) \<noteq> []" and "st ''current'' = None" and "cb"
  shows "\<exists>ex. clipboard (handleExportData env (init_part_001 env (App env ok cb as st))) = Some ex
         \<and> length (STATIC_STARS ex) = length (STATIC_STARS (initialData env))
         \<and> map star_text (STATIC_STARS ex) = map star_text (STATIC_STARS (initialData env))
         \<and> map isActive (STATIC_STARS ex) = map isActive (STATIC_STARS (initialData env))
         \<and> map star_id (STATIC_STARS ex) = map star_id (STATIC_STARS (initialData env))
         \<and> map position (STATIC_STARS ex) = map position (STATIC_STARS (initialData env))
         \<and> map viewCount (STATIC_STARS ex) = map viewCount (STATIC_STARS (initialData env))
         \<and> map (\<lambda>s. length (images s)) (STATIC_STARS ex)
             = map (\<lambda>s. length (images s)) (STATIC_STARS (initialData env))
         \<and> map song_id (STATIC_PLAYLIST ex) = map song_id (STATIC_PLAYLIST (initialData env))
         \<and> map name (STATIC_PLAYLIST ex) = map name (STATIC_PLAYLIST (initialData env))
         \<and> INITIAL_PLAYBACK_COUNT ex = INITIAL_PLAYBACK_COUNT (initialData env)"
  using assms
  by (cases ok)
     (simp_all add: init_part_001_def loadGameState_def App_def handleExportData_def Let_def
        comp_def)

theorem export_roundtrip_witness:
  "STATIC_STARS (initialData (browser exampleData)) = [exampleStar]
   \<and> (\<exists>ex. clipboard (handleExportData (browser exampleData)
                (init_part_001 (browser exampleData)
                   (App (browser exampleData) True True Map.empty Map.empty))) = Some ex
         \<and> map star_text (STATIC_STARS ex) = [Some ''This is a permanent memory.'']
         \<and> map isActive (STATIC_STARS ex) = [True])"
proof -
  let ?e = "browser exampleData"
  have h: "STATIC_STARS (initialData ?e) \<noteq> []" "Map.empty ''current'' = (None :: GameState option)"
    "True"
    and s: "STATIC_STARS (initialData ?e) = [exampleStar]"
    by (simp_all add: browser_def exampleData_def)
  from export_roundtrip [OF h, of True Map.empty]
  obtain ex where ex: "clipboard (handleExportData ?e (init_part_001 ?e (App ?e True True Map.empty Map.empty)))
                        = Some ex"
    and t: "map star_text (STATIC_STARS ex) = map star_text (STATIC_STARS (initialData ?e))"
    and a: "map isActive (STATIC_STARS ex) = map isActive (STATIC_STARS (initialData ?e))"
    by blast
  have t': "map star_text (STATIC_STARS ex) = [Some ''This is a permanent memory.'']"
    using t by (simp add: s exampleStar_def)
  have a': "map isActive (STATIC_STARS ex) = [True]"
    using a by (simp add: s exampleStar_def)
  show ?thesis by (intro conjI s exI [of _ ex] ex t' a')
qed

text \<open>
  C5 as stated fails for the seed that the repository ships: it has no star, so App
  starts with the twenty placeholder stars, and the export has twenty stars, not none.
\<close>

theorem export_roundtrip_counterexample:
  "length (STATIC_STARS shippedData) = 0
   \<and> map_option (\<lambda>ex. length (STATIC_STARS ex))
        (clipboard (handleExportData (browser shippedData)
           (init_part_001 (browser shippedData)
              (App (browser shippedData) True True Map.empty Map.empty)))) = Some 20"
  by (simp add: eval_defs data_defs handleExportData_def generateRandomStars_def)

section \<open>Frames of the handlers\<close>

lemma stars_ok_saveGame:
  "stars_ok P w \<Longrightarrow> stars_ok P (saveGame (stars w) pl c w)"
  by (simp add: stars_ok_def stored_ok_def saveGame_def saveGameState_def)

lemma saveGame_frame [simp]:
  "stars (saveGame ns pl c w) = stars w"
  "playlist (saveGame ns pl c w) = playlist w"
  "playbackCount (saveGame ns pl c w) = playbackCount w"
  "tempImages (saveGame ns pl c w) = tempImages w"
  "editingStarId (saveGame ns pl c w) = editingStarId w"
  "dbOk (saveGame ns pl c w) = dbOk w"
  "STORE_ASSETS (saveGame ns pl c w) = STORE_ASSETS w"
  "alerts (saveGame ns pl c w) = alerts w"
  by (simp_all add: saveGame_def saveGameState_def)

lemma saveGame_store:
  "STORE_STATE (saveGame ns pl c w) ''current'' =
     (if dbOk w then Some \<lparr>stars = ns, playlist = pl, playbackCount = c\<rparr>
      else STORE_STATE w ''current'')"
  by (simp add: saveGame_def saveGameState_def)

lemma processedImages_frame:
  "processedImages env imgs w = Inr (ps, w') \<Longrightarrow>
     length ps = length imgs \<and> map fst ps = map img_url imgs
     \<and> stars w' = stars w \<and> playlist w' = playlist w \<and> playbackCount w' = playbackCount w
     \<and> STORE_STATE w' = STORE_STATE w \<and> tempImages w' = tempImages w \<and> dbOk w' = dbOk w
     \<and> alerts w' = alerts w"
proof (induction imgs arbitrary: w ps w')
  case Nil
  then show ?case by simp
next
  case (Cons img imgs)
  show ?case
  proof (cases "img_file img")
    case None
    with Cons.prems obtain ps0 where
      r: "processedImages env imgs w = Inr (ps0, w')" and p: "ps = (img_url img, img_assetId img) # ps0"
      by (auto split: sum.splits)
    from Cons.IH [OF r] p show ?thesis by simp
  next
    case (Some f)
    with Cons.prems obtain i w1 ps0 where
      s: "saveAsset env (file_blob f) w = Inr (i, w1)"
      and r: "processedImages env imgs w1 = Inr (ps0, w')" and p: "ps = (img_url img, Some i) # ps0"
      by (auto split: sum.splits)
    from s have "stars w1 = stars w \<and> playlist w1 = playlist w \<and> playbackCount w1 = playbackCount w
       \<and> STORE_STATE w1 = STORE_STATE w \<and> tempImages w1 = tempImages w \<and> dbOk w1 = dbOk w
       \<and> alerts w1 = alerts w"
      by (auto simp: saveAsset_def Let_def split: if_splits)
    with Cons.IH [OF r] p show ?thesis by simp
  qed
qed

lemma list_all_map_if:
  "list_all P xs \<Longrightarrow> (\<And>x. P x \<Longrightarrow> c x \<Longrightarrow> P (f x)) \<Longrightarrow>
   list_all P (map (\<lambda>x. if c x then f x else x) xs)"
  by (induction xs) auto

lemma stars_ok_handleMusicUpload:
  "stars_ok P w \<Longrightarrow> stars_ok P (handleMusicUpload env f w)"
  by (auto simp: handleMusicUpload_def stars_ok_def stored_ok_def Let_def saveAsset_def saveGame_store
      split: option.splits sum.splits if_splits)

lemma stars_ok_handleSongEnd: "stars_ok P w \<Longrightarrow> stars_ok P (handleSongEnd w)"
  by (auto simp: handleSongEnd_def stars_ok_def stored_ok_def Let_def saveGame_store)

lemma stars_ok_handlePlaylistUpdate:
  "stars_ok P w \<Longrightarrow> stars_ok P (handlePlaylistUpdate p w)"
  by (auto simp: handlePlaylistUpdate_def stars_ok_def stored_ok_def saveGame_store)

lemma stars_ok_handleStarClick: "stars_ok P w \<Longrightarrow> stars_ok P (handleStarClick i w)"
  by (auto simp: handleStarClick_def stars_ok_def stored_ok_def split: option.splits)

lemma stars_ok_processFiles: "stars_ok P w \<Longrightarrow> stars_ok P (processFiles env fs w)"
  by (auto simp: processFiles_def stars_ok_def stored_ok_def Let_def)

lemma stars_ok_removeTempImage: "stars_ok P w \<Longrightarrow> stars_ok P (removeTempImage i w)"
  by (auto simp: removeTempImage_def stars_ok_def stored_ok_def)

lemma stars_ok_handleStarView:
  assumes "stars_ok P w" and "\<And>s v. P s \<Longrightarrow> P (s\<lparr>viewCount := v\<rparr>)"
  shows "stars_ok P (handleStarView i w)"
  using assms
  by (auto simp: handleStarView_def stars_ok_def stored_ok_def Let_def saveGame_store intro: list_all_map_if)

lemma stars_ok_handleLaunchStar:
  assumes "stars_ok P w"
    and "\<And>s ps w'. P s \<Longrightarrow> processedImages env (tempImages w) w = Inr (ps, w') \<Longrightarrow>
           P (s\<lparr>isActive := True, images := map fst ps,
                imageAssetIds := Some (map (\<lambda>p. case snd p of None \<Rightarrow> [] | Some a \<Rightarrow> a) ps),
                star_text := Some (tempText w), viewCount := 0\<rparr>)"
  shows "stars_ok P (handleLaunchStar env w)"
proof (cases "editingStarId w")
  case None
  then show ?thesis using assms(1) by (simp add: handleLaunchStar_def)
next
  case (Some e)
  show ?thesis
  proof (cases "processedImages env (tempImages w) w")
    case (Inl err)
    then show ?thesis using assms(1) Some by (simp add: handleLaunchStar_def stars_ok_def stored_ok_def)
  next
    case (Inr r)
    obtain ps w1 where r: "r = (ps, w1)" by (cases r)
    note fr = processedImages_frame [OF Inr [unfolded r]]
    let ?new = "map (\<lambda>star. if star_id star = e then
                         star\<lparr>isActive := True, images := map fst ps,
                              imageAssetIds := Some (map (\<lambda>p. case snd p of None \<Rightarrow> [] | Some a \<Rightarrow> a) ps),
                              star_text := Some (tempText w), viewCount := 0\<rparr>
                       else star) (stars w)"
    have new: "list_all P ?new"
      using assms(1) assms(2) [OF _ Inr [unfolded r]]
      by (intro list_all_map_if) (auto simp: stars_ok_def stored_ok_def)
    show ?thesis
      using new assms(1) fr Some Inr r
      by (auto simp: handleLaunchStar_def stars_ok_def stored_ok_def Let_def saveGame_store)
  qed
qed

section \<open>At most four images\<close>

text \<open>
  processFiles appends the first 4 - n of the files to a pending list of n images, and
  nothing when n is 4 or more.
\<close>

lemma processFiles_tempImages:
  "tempImages (processFiles env files w) =
     tempImages w @ map (\<lambda>file. \<lparr>img_url = createObjectURL env (file_blob file),
                                  img_file = Some file, img_assetId = None\<rparr>)
                        (take (4 - length (tempImages w)) files)"
proof (cases "length (tempImages w) < 4")
  case True
  then have "nat (min (int (length files)) (4 - int (length (tempImages w))))
               = min (length files) (4 - length (tempImages w))"
    by linarith
  then show ?thesis using True by (simp add: processFiles_def Let_def take_map min_def)
next
  case False
  then show ?thesis by (simp add: processFiles_def Let_def)
qed

lemma Promise_all_InrD: "Promise_all rs = Inr ys \<Longrightarrow> rs = map Inr ys"
proof (induction rs arbitrary: ys)
  case Nil
  then show ?case by simp
next
  case (Cons r rs)
  then show ?case by (cases r) (auto split: sum.splits)
qed

lemma Promise_all_list_all:
  assumes "Promise_all (map f xs) = Inr ys" and "list_all P xs"
    and "\<And>x y. P x \<Longrightarrow> f x = Inr y \<Longrightarrow> Q y"
  shows "list_all Q ys"
proof -
  from Promise_all_InrD [OF assms(1)] have m: "map f xs = map Inr ys" .
  then have l: "length xs = length ys" by (metis length_map)
  have "Q (ys ! j)" if "j < length ys" for j
  proof -
    from m that l have "f (xs ! j) = Inr (ys ! j)" by (metis nth_map)
    moreover from assms(2) that l have "P (xs ! j)" by (simp add: list_all_length)
    ultimately show ?thesis by (rule assms(3) [rotated])
  qed
  then show ?thesis by (simp add: list_all_length)
qed

lemma restoreStar_shape:
  assumes "restoreStar env w s = Inr s'"
  shows "s' = s
         \<or> (\<exists>bu. s' = s\<lparr>images := filter (\<lambda>u. u \<noteq> [])
                       (map (\<lambda>(i, original). if i < length bu \<and> bu ! i \<noteq> [] then bu ! i
                                               else original)
                            (enumerate 0 (images s)))\<rparr>)"
proof (cases "imageAssetIds s")
  case None
  then show ?thesis using assms by (simp add: restoreStar_def)
next
  case (Some ids)
  show ?thesis
  proof (cases "ids = []")
    case True
    then show ?thesis using assms Some by (simp add: restoreStar_def)
  next
    case False
    then obtain blobs where "s' = s\<lparr>images := filter (\<lambda>u. u \<noteq> [])
                     (map (\<lambda>(i, original).
                             if i < length (map (\<lambda>b. case b of Some x \<Rightarrow> createObjectURL env x | None \<Rightarrow> []) blobs)
                                \<and> map (\<lambda>b. case b of Some x \<Rightarrow> createObjectURL env x | None \<Rightarrow> []) blobs ! i \<noteq> []
                             then map (\<lambda>b. case b of Some x \<Rightarrow> createObjectURL env x | None \<Rightarrow> []) blobs ! i
                             else original)
                          (enumerate 0 (images s)))\<rparr>"
      using assms Some by (auto simp: restoreStar_def Let_def split: sum.splits)
    then show ?thesis by blast
  qed
qed

lemma restoreStar_shorter:
  assumes "restoreStar env w s = Inr s'"
  shows "length (images s') \<le> length (images s) \<and> imageAssetIds s' = imageAssetIds s"
proof -
  from restoreStar_shape [OF assms] show ?thesis
  proof (elim disjE exE)
    fix bu
    let ?m = "map (\<lambda>(i, original). if i < length bu \<and> bu ! i \<noteq> [] then bu ! i else original)
                  (enumerate 0 (images s))"
    assume s': "s' = s\<lparr>images := filter (\<lambda>u. u \<noteq> []) ?m\<rparr>"
    have "length (filter (\<lambda>u. u \<noteq> []) ?m) \<le> length ?m" by (rule length_filter_le)
    also have "length ?m = length (images s)" by simp
    finally show ?thesis by (simp add: s')
  qed simp
qed

lemma restoreStar_within4:
  "within4 s \<Longrightarrow> restoreStar env w s = Inr s' \<Longrightarrow> within4 s'"
  using restoreStar_shorter [of env w s s'] by (auto simp: within4_def)

lemma bounded_restore:
  assumes "bounded w" and "list_all within4 (stars d)"
  shows "bounded (restore env d w)"
proof (cases "Promise_all (map (restoreStar env w) (stars d))")
  case (Inl e)
  then show ?thesis using assms(1) by (simp add: restore_def)
next
  case (Inr rs)
  have rs: "list_all within4 rs"
    using Promise_all_list_all [OF Inr assms(2)] restoreStar_within4 by blast
  show ?thesis
    using rs assms(1) Inr
    by (auto simp: restore_def bounded_def stars_ok_def stored_ok_def split: sum.splits)
qed

lemma bounded_init:
  assumes "bounded w" and "list_all within4 (STATIC_STARS (initialData env))"
  shows "bounded (init_part_000 env w)" and "bounded (init_part_001 env w)"
proof -
  have upd: "bounded (v\<lparr>isDataLoaded := b\<rparr>) = bounded v" for v b
    by (simp add: bounded_def stars_ok_def stored_ok_def)
  have r: "bounded (restore env d w)" if "STORE_STATE w ''current'' = Some d" for d
    using assms(1) that by (intro bounded_restore) (auto simp: bounded_def stars_ok_def stored_ok_def)
  have seed: "bounded x" if "saveGameState \<lparr>stars = STATIC_STARS (initialData env), playlist = p,
                          playbackCount = c\<rparr> w = Inr x" for p c x
    using assms that by (auto simp: bounded_def stars_ok_def stored_ok_def saveGameState_def split: if_splits)
  show "bounded (init_part_001 env w)"
    unfolding init_part_001_def upd using assms(1) r
    by (auto simp: loadGameState_def split: sum.splits option.splits if_splits)
  show "bounded (init_part_000 env w)"
    unfolding init_part_000_def upd using assms(1) r seed
    by (auto simp: loadGameState_def split: sum.splits option.splits if_splits)
qed

lemma four_slots: "n \<le> 4 \<Longrightarrow> n + min m (4 - n) \<le> (4::nat)"
  by linarith

lemma within4_viewCount: "within4 s \<Longrightarrow> within4 (s\<lparr>viewCount := v\<rparr>)"
  by (simp add: within4_def)

lemma bounded_step:
  assumes "bounded w"
  shows "bounded (step env w ev)"
proof (cases ev)
  case (MusicUpload f)
  have "tempImages (handleMusicUpload env f w) = tempImages w"
    by (auto simp: handleMusicUpload_def Let_def saveAsset_def split: option.splits sum.splits)
  then show ?thesis
    using assms MusicUpload by (simp add: bounded_def stars_ok_handleMusicUpload)
next
  case SongEnd
  then show ?thesis
    using assms by (simp add: bounded_def stars_ok_handleSongEnd) (simp add: handleSongEnd_def Let_def)
next
  case (StarClick i)
  have "length (tempImages (handleStarClick i w)) \<le> 4"
  proof (cases "find (\<lambda>s. star_id s = i) (stars w)")
    case None
    then show ?thesis using assms by (simp add: handleStarClick_def bounded_def)
  next
    case (Some star)
    then have "star \<in> set (stars w)" by (auto simp: find_Some_iff)
    then have "within4 star" using assms by (auto simp: bounded_def stars_ok_def stored_ok_def list_all_iff)
    then show ?thesis using Some by (simp add: handleStarClick_def within4_def)
  qed
  then show ?thesis
    using assms StarClick by (simp add: bounded_def stars_ok_handleStarClick)
next
  case (StarView i)
  then show ?thesis
    using assms
    by (simp add: bounded_def stars_ok_handleStarView within4_viewCount)
       (simp add: handleStarView_def Let_def)
next
  case LaunchStar
  have t: "length (tempImages (handleLaunchStar env w)) \<le> 4"
    using assms
    by (auto simp: handleLaunchStar_def bounded_def Let_def split: option.splits sum.splits)
  have "stars_ok within4 (handleLaunchStar env w)"
  proof (rule stars_ok_handleLaunchStar)
    show "stars_ok within4 w" using assms by (simp add: bounded_def)
  next
    fix s ps w'
    assume "within4 s" and "processedImages env (tempImages w) w = Inr (ps, w')"
    from processedImages_frame [OF this(2)] assms
    show "within4 (s\<lparr>isActive := True, images := map fst ps,
                imageAssetIds := Some (map (\<lambda>p. case snd p of None \<Rightarrow> [] | Some a \<Rightarrow> a) ps),
                star_text := Some (tempText w), viewCount := 0\<rparr>)"
      by (simp add: within4_def bounded_def)
  qed
  then show ?thesis using t LaunchStar by (simp add: bounded_def)
next
  case (ImageSelect fs)
  have "length (tempImages (processFiles env f w)) \<le> 4" for f
    using assms four_slots [of "length (tempImages w)" "length f"]
    by (simp add: processFiles_tempImages bounded_def)
  then show ?thesis
    using assms ImageSelect
    by (auto simp: bounded_def handleImageSelect_def stars_ok_processFiles split: option.splits)
next
  case (Drop fs)
  have "length (tempImages (processFiles env f w)) \<le> 4" for f
    using assms four_slots [of "length (tempImages w)" "length f"]
    by (simp add: processFiles_tempImages bounded_def)
  then show ?thesis
    using assms Drop
    by (auto simp: bounded_def handleDrop_def stars_ok_processFiles)
next
  case (RemoveTempImage i)
  have "length (tempImages (removeTempImage i w)) \<le> length (tempImages w)"
    using length_filter_le [of "\<lambda>(j, img). j \<noteq> i" "enumerate 0 (tempImages w)"]
    by (simp add: removeTempImage_def)
  then show ?thesis
    using assms RemoveTempImage by (simp add: bounded_def stars_ok_removeTempImage)
next
  case (PlaylistUpdate p)
  then show ?thesis
    using assms
    by (simp add: bounded_def stars_ok_handlePlaylistUpdate) (simp add: handlePlaylistUpdate_def)
next
  case (SetCurrentIndex i)
  then show ?thesis using assms by (simp add: bounded_def stars_ok_def stored_ok_def)
next
  case (SetTempText t)
  then show ?thesis using assms by (simp add: bounded_def stars_ok_def stored_ok_def)
next
  case CloseModal
  then show ?thesis using assms by (simp add: bounded_def stars_ok_def stored_ok_def)
qed

lemma bounded_run: "bounded w \<Longrightarrow> bounded (run env evs w)"
  unfolding run_def by (induction evs arbitrary: w) (simp_all add: bounded_step)

lemma bounded_App:
  assumes "list_all within4 (STATIC_STARS (initialData env))"
    and "stored_ok within4 st"
  shows "bounded (App env ok cb as st)"
proof -
  have "list_all within4 (generateRandomStars env)"
    by (simp add: generateRandomStars_def list_all_iff within4_def)
  then show ?thesis using assms by (simp add: bounded_def stars_ok_def stored_ok_def App_def)
qed

text \<open>
  C9, as the code has it. processFiles appends at most 4 minus the current number of
  pending images. If no star of the seed and no star of the Document found in the store
  has more than four images or more than four asset identifiers, then in every state
  that a session reaches (either variant of init, then any handlers in any order) the
  pending list has at most four images, and every star of the live model and of the
  persisted Document has at most four images and at most four asset identifiers.
\<close>

theorem launch_at_most_four:
  assumes "list_all within4 (STATIC_STARS (initialData env))"
    and "stored_ok within4 st"
  shows "bounded (run env evs (init_part_000 env (App env ok cb as st)))
     \<and> bounded (run env evs (init_part_001 env (App env ok cb as st)))
     \<and> length (tempImages (run env evs (init_part_000 env (App env ok cb as st)))) \<le> 4
     \<and> length (tempImages (run env evs (init_part_001 env (App env ok cb as st)))) \<le> 4
     \<and> list_all (\<lambda>s. length (images s) \<le> 4)
          (stars (run env evs (init_part_000 env (App env ok cb as st))))
     \<and> list_all (\<lambda>s. length (images s) \<le> 4)
          (stars (run env evs (init_part_001 env (App env ok cb as st))))
     \<and> tempImages (processFiles env files w) =
         tempImages w @ map (\<lambda>file. \<lparr>img_url = createObjectURL env (file_blob file),
                                      img_file = Some file, img_assetId = None\<rparr>)
                            (take (4 - length (tempImages w)) files)"
proof -
  have b: "bounded (run env evs (init_part_000 env (App env ok cb as st)))"
    "bounded (run env evs (init_part_001 env (App env ok cb as st)))"
    using bounded_App [OF assms] assms(1) by (simp_all add: bounded_run bounded_init)
  have e: "length (tempImages v) \<le> 4 \<and> list_all (\<lambda>s. length (images s) \<le> 4) (stars v)"
    if "bounded v" for v
    using that by (auto simp: bounded_def stars_ok_def within4_def list_all_iff)
  show ?thesis using b e [OF b(1)] e [OF b(2)] by (simp add: processFiles_tempImages)
qed

theorem launch_at_most_four_witness:
  "list_all within4 (STATIC_STARS (initialData (browser shippedData)))
   \<and> bounded (run (browser shippedData) [StarClick 0, ImageSelect (Some sixFiles), LaunchStar]
                (init_part_001 (browser shippedData)
                   (App (browser shippedData) True True Map.empty Map.empty)))
   \<and> length (tempImages (processFiles (browser shippedData) sixFiles
                             (App (browser shippedData) True True Map.empty Map.empty))) = 4"
proof -
  let ?e = "browser shippedData"
  have h: "list_all within4 (STATIC_STARS (initialData ?e))"
    "stored_ok within4 Map.empty"
    by (simp_all add: browser_def shippedData_def stored_ok_def)
  note t = launch_at_most_four [OF h, of "[StarClick 0, ImageSelect (Some sixFiles), LaunchStar]"
      True True Map.empty sixFiles "App ?e True True Map.empty Map.empty"]
  have "length (tempImages (processFiles ?e sixFiles (App ?e True True Map.empty Map.empty))) = 4"
    using t by (simp add: App_def sixFiles_def)
  then show ?thesis using h(1) t by blast
qed

text \<open>
  C9 as stated fails: handleStarClick fills the pending list with all the images the
  star has. With a seed whose star has five images, clicking the star gives five pending
  images, and the launch stores five images and five asset identifiers on the star.
\<close>

theorem launch_at_most_four_counterexample:
  "length (images (stars (App (browser fiveData) True True Map.empty Map.empty) ! 0)) = 5
   \<and> length (tempImages (run (browser fiveData) [StarClick 0]
        (init_part_001 (browser fiveData) (App (browser fiveData) True True Map.empty Map.empty)))) = 5
   \<and> map_option (\<lambda>ids. length ids)
        (imageAssetIds (stars (run (browser fiveData) [StarClick 0, LaunchStar]
        (init_part_001 (browser fiveData) (App (browser fiveData) True True Map.empty Map.empty))) ! 0))
       = Some 5
   \<and> length (images (stars (run (browser fiveData) [StarClick 0, LaunchStar]
        (init_part_001 (browser fiveData) (App (browser fiveData) True True Map.empty Map.empty))) ! 0)) = 5"
  by (simp add: eval_defs data_defs fiveData_def fiveStar_def run_def handleStarClick_def
        handleLaunchStar_def saveGame_def)

section \<open>Alignment of images and asset identifiers\<close>

lemma paired_same_length: "paired env as s \<Longrightarrow> same_length s"
  by (auto simp: paired_def same_length_def list_all2_lengthD split: option.splits)

text \<open>An asset store that agrees on the identifiers of a star pairs it alike.\<close>

lemma handle_of_cong: "as' a = as a \<Longrightarrow> handle_of env as' u a = handle_of env as u a"
  by (simp add: handle_of_def)

lemma list_all2_cong_strong:
  assumes "\<And>x y. y \<in> set ys \<Longrightarrow> P x y = Q x y"
  shows "list_all2 P xs ys = list_all2 Q xs ys"
  using assms by (auto simp: list_all2_conv_all_nth)

lemma paired_cong:
  assumes "\<forall>a \<in> star_ids s. as' a = as a"
  shows "paired env as' s = paired env as s"
proof (cases "imageAssetIds s")
  case None
  then show ?thesis by (simp add: paired_def)
next
  case (Some ids)
  have "list_all2 (handle_of env as') (images s) ids = list_all2 (handle_of env as) (images s) ids"
  proof (rule list_all2_cong_strong)
    fix u a assume "a \<in> set ids"
    then have "as' a = as a" using assms Some by (simp add: star_ids_def)
    then show "handle_of env as' u a = handle_of env as u a" by (rule handle_of_cong)
  qed
  then show ?thesis using Some by (simp add: paired_def)
qed

lemma pending_ok_cong:
  assumes "\<forall>a. img_assetId t = Some a \<longrightarrow> as' a = as a"
  shows "pending_ok env as' t = pending_ok env as t"
  using assms by (auto simp: pending_ok_def handle_of_def split: option.splits)

lemma linked_assets:
  assumes l: "linked env d0 w"
    and fr: "\<forall>k. k \<notin> randomUUID env ` {rng w..<r} \<longrightarrow> as' k = STORE_ASSETS w k"
    and a: "(a::string) \<in> ids_of (stars w) \<union> stored_ids (STORE_STATE w) \<union> pending_ids (tempImages w)"
  shows "as' a = STORE_ASSETS w a"
proof -
  have "a \<notin> randomUUID env ` {rng w..<r}"
  proof
    assume "a \<in> randomUUID env ` {rng w..<r}"
    then obtain n where "rng w \<le> n" "a = randomUUID env n" by auto
    moreover from l have "\<forall>n\<ge>rng w. randomUUID env n
             \<notin> ids_of (stars w) \<union> stored_ids (STORE_STATE w) \<union> pending_ids (tempImages w)"
      unfolding linked_def by (elim conjE)
    ultimately show False using a by blast
  qed
  with fr show ?thesis by simp
qed

text \<open>
  The restore pairs every star that it is given with lists of the same length and no
  empty image reference.
\<close>

lemma restoreStar_sound:
  assumes ok: "dbOk w" and len: "same_length s" and ne: "no_empty s"
    and r: "restoreStar env w s = Inr s'"
  shows "paired env (STORE_ASSETS w) s' \<and> no_empty s' \<and> imageAssetIds s' = imageAssetIds s"
proof (cases "imageAssetIds s = None \<or> imageAssetIds s = Some []")
  case True
  then have "s' = s" using r restoreStar_plain [of s env w] by simp
  moreover have "paired env (STORE_ASSETS w) s"
    using True len by (auto simp: paired_def same_length_def)
  ultimately show ?thesis using ne by simp
next
  case False
  then obtain ids where ids: "imageAssetIds s = Some ids" "ids \<noteq> []" by auto
  with len have l: "length (images s) = length ids" by (simp add: same_length_def)
  let ?m = "map2 (resolve_or_fallback env w) ids (images s)"
  have s': "s' = s\<lparr>images := filter (\<lambda>u. u \<noteq> []) ?m\<rparr>"
    using r restoreStar_ids [OF ok ids, of env] slots_aligned [OF l, of env w] by simp
  have nth: "?m ! i = resolve_or_fallback env w (ids ! i) (images s ! i)" if "i < length ids" for i
    using that l by simp
  have "u \<noteq> []" if "u \<in> set ?m" for u
  proof -
    from that obtain i where i: "i < length ids" "u = ?m ! i"
      using l by (auto simp: in_set_conv_nth)
    have "images s ! i \<noteq> []"
      using ne i(1) l by (simp add: no_empty_def list_all_length)
    then show ?thesis
      using i nth [OF i(1)] by (simp add: resolve_or_fallback_def split: option.splits)
  qed
  then have all: "\<forall>u \<in> set ?m. u \<noteq> []" by blast
  then have f: "filter (\<lambda>u. u \<noteq> []) ?m = ?m" by (simp only: filter_id_conv)
  have im: "images s' = ?m" and id: "imageAssetIds s' = Some ids"
    using s' f ids by simp_all
  have "list_all2 (handle_of env (STORE_ASSETS w)) ?m ids"
  proof (rule list_all2_all_nthI)
    show "length ?m = length ids" using l by simp
  next
    fix i assume "i < length ?m"
    then have i: "i < length ids" using l by simp
    show "handle_of env (STORE_ASSETS w) (?m ! i) (ids ! i)"
      unfolding nth [OF i]
      by (simp add: handle_of_def resolve_or_fallback_def split: option.splits)
  qed
  then have "paired env (STORE_ASSETS w) s'" using im id by (simp add: paired_def)
  moreover have "no_empty s'" using im all by (simp add: no_empty_def list_all_iff)
  ultimately show ?thesis using id ids by simp
qed

lemma ids_of_subset:
  assumes "length ys = length xs" and "\<forall>j<length xs. star_ids (ys ! j) = star_ids (xs ! j)"
  shows "ids_of ys = ids_of xs"
proof -
  have "map star_ids ys = map star_ids xs"
    using assms by (intro nth_equalityI) simp_all
  then have "star_ids ` set ys = star_ids ` set xs" by (metis set_map)
  then show ?thesis by (simp add: ids_of_def)
qed

lemma restore_linked:
  assumes ok: "dbOk w" and d: "list_all same_length (stars d)" "list_all no_empty (stars d)"
  shows "list_all (\<lambda>s. paired env (STORE_ASSETS w) s \<and> no_empty s) (stars (restore env d w))
         \<and> ids_of (stars (restore env d w)) = ids_of (stars d)
         \<and> STORE_ASSETS (restore env d w) = STORE_ASSETS w
         \<and> STORE_STATE (restore env d w) = STORE_STATE w
         \<and> tempImages (restore env d w) = tempImages w
         \<and> rng (restore env d w) = rng w"
proof -
  let ?r = "stars (restore env d w)"
  note rs = restore_stars [OF ok, of env d]
  have each: "paired env (STORE_ASSETS w) (?r ! j) \<and> no_empty (?r ! j)
              \<and> imageAssetIds (?r ! j) = imageAssetIds (stars d ! j)"
    if "j < length (stars d)" for j
  proof -
    from rs that have "restoreStar env w (stars d ! j) = Inr (?r ! j)" by simp
    moreover from d that have "same_length (stars d ! j)" "no_empty (stars d ! j)"
      by (simp_all add: list_all_length)
    ultimately show ?thesis using restoreStar_sound [OF ok] by blast
  qed
  have "list_all (\<lambda>s. paired env (STORE_ASSETS w) s \<and> no_empty s) ?r"
    using each rs by (simp add: list_all_length)
  moreover have "ids_of ?r = ids_of (stars d)"
    using each rs by (intro ids_of_subset) (simp_all add: star_ids_def)
  moreover have "STORE_ASSETS (restore env d w) = STORE_ASSETS w
         \<and> STORE_STATE (restore env d w) = STORE_STATE w
         \<and> tempImages (restore env d w) = tempImages w
         \<and> rng (restore env d w) = rng w"
    by (simp add: restore_def split: sum.splits)
  ultimately show ?thesis by blast
qed

lemma saveGame_rng [simp]: "rng (saveGame ns pl c w) = rng w"
  by (simp add: saveGame_def saveGameState_def)

lemma saveGame_doc:
  "STORE_STATE (saveGame ns pl c w) ''current'' = STORE_STATE w ''current''
   \<or> STORE_STATE (saveGame ns pl c w) ''current''
       = Some \<lparr>stars = ns, playlist = pl, playbackCount = c\<rparr>"
  by (simp add: saveGame_store)

lemma stored_ids_eq:
  "STORE_STATE w' ''current'' = STORE_STATE w ''current'' \<Longrightarrow>
   stored_ids (STORE_STATE w') = stored_ids (STORE_STATE w)"
  by (simp add: stored_ids_def)

lemma linked_stars:
  assumes l: "linked env d0 w"
    and fr: "\<forall>k. k \<notin> randomUUID env ` {rng w..<r} \<longrightarrow> as' k = STORE_ASSETS w k"
  shows "list_all (\<lambda>s. paired env as' s \<and> no_empty s) (stars w)"
proof -
  have "paired env as' s \<and> no_empty s" if s: "s \<in> set (stars w)" for s
  proof -
    have "\<forall>a \<in> star_ids s. as' a = STORE_ASSETS w a"
      using linked_assets [OF l fr] s by (auto simp: ids_of_def)
    from paired_cong [OF this, of env] l s show ?thesis
      by (auto simp: linked_def list_all_iff)
  qed
  then show ?thesis by (simp add: list_all_iff)
qed

lemma linked_pending:
  assumes l: "linked env d0 w"
    and fr: "\<forall>k. k \<notin> randomUUID env ` {rng w..<r} \<longrightarrow> as' k = STORE_ASSETS w k"
  shows "list_all (pending_ok env as') (tempImages w)"
proof -
  have "pending_ok env as' t" if t: "t \<in> set (tempImages w)" for t
  proof -
    have "\<forall>a. img_assetId t = Some a \<longrightarrow> as' a = STORE_ASSETS w a"
      using linked_assets [OF l fr] t by (auto simp: pending_ids_def)
    from pending_ok_cong [OF this, of env] l t show ?thesis
      by (auto simp: linked_def list_all_iff)
  qed
  then show ?thesis by (simp add: list_all_iff)
qed

lemma linked_persisted:
  assumes l: "linked env d0 w"
    and fr: "\<forall>k. k \<notin> randomUUID env ` {rng w..<r} \<longrightarrow> as' k = STORE_ASSETS w k"
  shows "persisted_ok env d0 as' (STORE_STATE w ''current'')"
proof (cases "STORE_STATE w ''current''")
  case None
  then show ?thesis by (simp add: persisted_ok_def)
next
  case (Some d)
  have same: "paired env as' s = paired env (STORE_ASSETS w) s" if s: "s \<in> set (stars d)" for s
  proof -
    have "\<forall>a \<in> star_ids s. as' a = STORE_ASSETS w a"
      using linked_assets [OF l fr] s Some by (auto simp: ids_of_def stored_ids_def)
    then show ?thesis by (rule paired_cong)
  qed
  from l have "persisted_ok env d0 (STORE_ASSETS w) (Some d)"
    using Some by (simp add: linked_def)
  then show ?thesis
    using Some same by (auto simp: persisted_ok_def list_all_iff)
qed

text \<open>
  The general step: the asset store changes only at identifiers drawn meanwhile, the
  stars of the new state are paired in it and mention only identifiers known before or
  drawn meanwhile, the Document is the old one or the new stars, and the pending images
  are in order.
\<close>

lemma linked_next:
  assumes l: "linked env d0 w" and inj: "inj (randomUUID env)"
    and ne: "\<forall>n. randomUUID env n \<noteq> []"
    and fr: "\<forall>k. k \<notin> randomUUID env ` {rng w..<rng w'} \<longrightarrow> STORE_ASSETS w' k = STORE_ASSETS w k"
    and le: "rng w \<le> rng w'"
    and st: "list_all (\<lambda>s. paired env (STORE_ASSETS w') s \<and> no_empty s) (stars w')"
    and ids: "ids_of (stars w') \<subseteq> ids_of (stars w) \<union> pending_ids (tempImages w)
                \<union> randomUUID env ` {rng w..<rng w'} \<union> {[]}"
    and doc: "STORE_STATE w' ''current'' = STORE_STATE w ''current''
              \<or> (\<exists>p c. STORE_STATE w' ''current''
                         = Some \<lparr>stars = stars w', playlist = p, playbackCount = c\<rparr>)"
    and tmp: "list_all (pending_ok env (STORE_ASSETS w')) (tempImages w')"
    and tids: "pending_ids (tempImages w') \<subseteq> ids_of (stars w) \<union> pending_ids (tempImages w)"
  shows "linked env d0 w'"
proof -
  let ?old = "ids_of (stars w) \<union> stored_ids (STORE_STATE w) \<union> pending_ids (tempImages w)"
  have fresh_old: "randomUUID env n \<notin> ?old" if "rng w \<le> n" for n
    using l that unfolding linked_def by blast
  have fresh_new: "randomUUID env n \<notin> randomUUID env ` {rng w..<rng w'}" if "rng w' \<le> n" for n
  proof
    assume "randomUUID env n \<in> randomUUID env ` {rng w..<rng w'}"
    then obtain m where "m < rng w'" "randomUUID env n = randomUUID env m" by auto
    with inj have "n = m" by (simp add: inj_eq)
    with \<open>m < rng w'\<close> that show False by simp
  qed
  have b: "persisted_ok env d0 (STORE_ASSETS w') (STORE_STATE w' ''current'')"
    using doc
  proof
    assume "STORE_STATE w' ''current'' = STORE_STATE w ''current''"
    then show ?thesis using linked_persisted [OF l fr] by simp
  next
    assume "\<exists>p c. STORE_STATE w' ''current''
                         = Some \<lparr>stars = stars w', playlist = p, playbackCount = c\<rparr>"
    then obtain p c where "STORE_STATE w' ''current''
                         = Some \<lparr>stars = stars w', playlist = p, playbackCount = c\<rparr>" by blast
    moreover have "list_all same_length (stars w')"
      using st by (auto simp: list_all_iff paired_same_length)
    ultimately show ?thesis using st by (simp add: persisted_ok_def)
  qed
  have sids: "stored_ids (STORE_STATE w') \<subseteq> stored_ids (STORE_STATE w) \<union> ids_of (stars w')"
    using doc by (auto simp: stored_ids_def)
  have d: "randomUUID env n
             \<notin> ids_of (stars w') \<union> stored_ids (STORE_STATE w') \<union> pending_ids (tempImages w')"
    if n: "rng w' \<le> n" for n
  proof -
    from n le have "rng w \<le> n" by simp
    from fresh_old [OF this] fresh_new [OF n] ne ids sids tids show ?thesis by blast
  qed
  show ?thesis unfolding linked_def using st b tmp d by blast
qed

lemma viewCount_update [simp]:
  "paired env as (s\<lparr>viewCount := v\<rparr>) = paired env as s"
  "no_empty (s\<lparr>viewCount := v\<rparr>) = no_empty s"
  "star_ids (s\<lparr>viewCount := v\<rparr>) = star_ids s"
  by (simp_all add: paired_def no_empty_def star_ids_def split: option.splits)

lemma linkedD:
  assumes "linked env d0 w"
  shows "list_all (\<lambda>s. paired env (STORE_ASSETS w) s \<and> no_empty s) (stars w)"
    and "list_all (pending_ok env (STORE_ASSETS w)) (tempImages w)"
  using assms by (simp_all add: linked_def)

lemma linked_handleMusicUpload:
  assumes l: "linked env d0 w" and inj: "inj (randomUUID env)"
    and ne: "\<forall>n. randomUUID env n \<noteq> []"
  shows "linked env d0 (handleMusicUpload env fo w)"
proof (cases "handleMusicUpload env fo w = w
              \<or> (\<exists>a. handleMusicUpload env fo w = w\<lparr>alerts := a\<rparr>)")
  case True
  have "linked env d0 (w\<lparr>alerts := a\<rparr>)" for a using l by (simp add: linked_def)
  with True l show ?thesis by auto
next
  case False
  then obtain fl where fo: "fo = Some fl" and ok: "dbOk w"
    by (auto simp: handleMusicUpload_def saveAsset_def Let_def split: option.splits if_splits)
  let ?w' = "handleMusicUpload env fo w"
  let ?k = "randomUUID env (rng w)"
  from False fo ok have
    st: "stars ?w' = stars w" and tm: "tempImages ?w' = tempImages w"
    and rg: "rng ?w' = rng w + 2"
    and as: "STORE_ASSETS ?w' = (STORE_ASSETS w)(?k \<mapsto> file_blob fl)"
    and doc: "\<exists>p c. STORE_STATE ?w' ''current''
                = Some \<lparr>stars = stars ?w', playlist = p, playbackCount = c\<rparr>"
    by (auto simp: handleMusicUpload_def saveAsset_def Let_def saveGame_store split: if_splits)
  have fr: "\<forall>k. k \<notin> randomUUID env ` {rng w..<rng ?w'} \<longrightarrow> STORE_ASSETS ?w' k = STORE_ASSETS w k"
    unfolding as rg by auto
  have "linked env d0 ?w'"
  proof (rule linked_next [OF l inj ne fr])
    show "rng w \<le> rng ?w'" using rg by simp
    show "list_all (\<lambda>s. paired env (STORE_ASSETS ?w') s \<and> no_empty s) (stars ?w')"
      unfolding st by (rule linked_stars [OF l fr])
    show "list_all (pending_ok env (STORE_ASSETS ?w')) (tempImages ?w')"
      unfolding tm by (rule linked_pending [OF l fr])
    show "STORE_STATE ?w' ''current'' = STORE_STATE w ''current''
            \<or> (\<exists>p c. STORE_STATE ?w' ''current''
                       = Some \<lparr>stars = stars ?w', playlist = p, playbackCount = c\<rparr>)"
      using doc by blast
  qed (auto simp: st tm)
  then show ?thesis .
qed

lemma linked_handleSongEnd:
  assumes l: "linked env d0 w" and inj: "inj (randomUUID env)"
    and ne: "\<forall>n. randomUUID env n \<noteq> []"
  shows "linked env d0 (handleSongEnd w)"
proof -
  let ?w' = "handleSongEnd w"
  have f: "stars ?w' = stars w" "tempImages ?w' = tempImages w" "rng ?w' = rng w"
    "STORE_ASSETS ?w' = STORE_ASSETS w"
    by (simp_all add: handleSongEnd_def Let_def)
  have doc: "STORE_STATE ?w' ''current'' = STORE_STATE w ''current''
              \<or> (\<exists>p c. STORE_STATE ?w' ''current''
                         = Some \<lparr>stars = stars ?w', playlist = p, playbackCount = c\<rparr>)"
    unfolding f using saveGame_doc [of "stars w" "playlist w" "plus1 (playbackCount w)"
        "w\<lparr>playbackCount := plus1 (playbackCount w)\<rparr>"]
    by (auto simp: handleSongEnd_def Let_def)
  have "linked env d0 ?w'"
    by (rule linked_next [OF l inj ne _ _ _ _ doc]) (use l in \<open>auto simp: f linkedD\<close>)
  then show ?thesis .
qed

lemma linked_handleStarClick:
  assumes l: "linked env d0 w" and inj: "inj (randomUUID env)"
    and ne: "\<forall>n. randomUUID env n \<noteq> []"
  shows "linked env d0 (handleStarClick i w)"
proof (cases "find (\<lambda>s. star_id s = i) (stars w)")
  case None
  then show ?thesis using l by (simp add: handleStarClick_def)
next
  case (Some star)
  let ?w' = "handleStarClick i w"
  let ?t = "\<lambda>(index, u).
               \<lparr>img_url = u, img_file = None,
                img_assetId =
                  (case imageAssetIds star of
                     None \<Rightarrow> None
                   | Some ids \<Rightarrow> if index < length ids then Some (ids ! index) else None)\<rparr>"
  have f: "stars ?w' = stars w" "rng ?w' = rng w" "STORE_ASSETS ?w' = STORE_ASSETS w"
    "STORE_STATE ?w' = STORE_STATE w"
    and tm: "tempImages ?w' = map ?t (enumerate 0 (images star))"
    using Some by (simp_all add: handleStarClick_def)
  from Some have mem: "star \<in> set (stars w)" by (auto simp: find_Some_iff)
  with l have p: "paired env (STORE_ASSETS w) star" and n: "no_empty star"
    by (auto simp: linked_def list_all_iff)
  have each: "pending_ok env (STORE_ASSETS w) (?t (j, images star ! j))
              \<and> (\<forall>a. img_assetId (?t (j, images star ! j)) = Some a \<longrightarrow> a \<in> star_ids star)"
    if j: "j < length (images star)" for j
  proof (cases "imageAssetIds star")
    case None
    then show ?thesis
      using n j by (simp add: pending_ok_def handle_of_def no_empty_def list_all_length)
  next
    case (Some ids)
    with p have "list_all2 (handle_of env (STORE_ASSETS w)) (images star) ids"
      by (simp add: paired_def)
    then have "length ids = length (images star)"
      and "handle_of env (STORE_ASSETS w) (images star ! j) (ids ! j)"
      using j by (simp_all add: list_all2_conv_all_nth)
    then show ?thesis
      using n j Some
      by (simp add: pending_ok_def no_empty_def list_all_length star_ids_def)
  qed
  have tmp: "list_all (pending_ok env (STORE_ASSETS ?w')) (tempImages ?w')"
    unfolding tm f using each by (simp add: list_all_length nth_enumerate_eq)
  have tids: "pending_ids (tempImages ?w') \<subseteq> ids_of (stars w) \<union> pending_ids (tempImages w)"
  proof
    fix a assume "a \<in> pending_ids (tempImages ?w')"
    then obtain j where "j < length (images star)"
      "img_assetId (?t (j, images star ! j)) = Some a"
      unfolding tm pending_ids_def by (auto simp: in_set_conv_nth nth_enumerate_eq)
    with each have "a \<in> star_ids star" by blast
    with mem show "a \<in> ids_of (stars w) \<union> pending_ids (tempImages w)"
      by (auto simp: ids_of_def)
  qed
  have "linked env d0 ?w'"
    by (rule linked_next [OF l inj ne _ _ _ _ _ tmp tids]) (use l in \<open>auto simp: f linkedD\<close>)
  then show ?thesis .
qed

lemma linked_handleStarView:
  assumes l: "linked env d0 w" and inj: "inj (randomUUID env)"
    and ne: "\<forall>n. randomUUID env n \<noteq> []"
  shows "linked env d0 (handleStarView i w)"
proof -
  let ?w' = "handleStarView i w"
  let ?new = "map (\<lambda>star. if star_id star = i then star\<lparr>viewCount := plus1 (viewCount star)\<rparr>
                         else star) (stars w)"
  have f: "stars ?w' = ?new" "tempImages ?w' = tempImages w" "rng ?w' = rng w"
    "STORE_ASSETS ?w' = STORE_ASSETS w"
    by (simp_all add: handleStarView_def Let_def)
  have doc: "STORE_STATE ?w' ''current'' = STORE_STATE w ''current''
              \<or> (\<exists>p c. STORE_STATE ?w' ''current''
                         = Some \<lparr>stars = stars ?w', playlist = p, playbackCount = c\<rparr>)"
    unfolding f using saveGame_doc [of ?new "playlist w" "playbackCount w" "w\<lparr>stars := ?new\<rparr>"]
    by (auto simp: handleStarView_def Let_def)
  have st: "list_all (\<lambda>s. paired env (STORE_ASSETS ?w') s \<and> no_empty s) (stars ?w')"
    unfolding f using linkedD(1) [OF l]
    by (auto simp: list_all_iff)
  have ids: "ids_of ?new = ids_of (stars w)"
    by (auto simp: ids_of_def)
  have "linked env d0 ?w'"
    by (rule linked_next [OF l inj ne _ _ st _ doc]) (use l in \<open>auto simp: f ids linkedD\<close>)
  then show ?thesis .
qed

lemma linked_processFiles:
  assumes l: "linked env d0 w" and inj: "inj (randomUUID env)"
    and ne: "\<forall>n. randomUUID env n \<noteq> []"
  shows "linked env d0 (processFiles env fs w)"
proof -
  let ?w' = "processFiles env fs w"
  let ?new = "map (\<lambda>file. \<lparr>img_url = createObjectURL env (file_blob file),
                              img_file = Some file, img_assetId = None\<rparr>)
                  (take (4 - length (tempImages w)) fs)"
  have f: "stars ?w' = stars w" "rng ?w' = rng w" "STORE_ASSETS ?w' = STORE_ASSETS w"
    "STORE_STATE ?w' = STORE_STATE w"
    by (simp_all add: processFiles_def Let_def)
  have tm: "tempImages ?w' = tempImages w @ ?new" by (rule processFiles_tempImages)
  have "list_all (pending_ok env (STORE_ASSETS w)) ?new"
    by (simp add: list_all_iff pending_ok_def)
  then have tmp: "list_all (pending_ok env (STORE_ASSETS ?w')) (tempImages ?w')"
    unfolding tm f using linkedD(2) [OF l] by simp
  have tids: "pending_ids (tempImages ?w') \<subseteq> ids_of (stars w) \<union> pending_ids (tempImages w)"
    unfolding tm by (auto simp: pending_ids_def)
  show ?thesis
    by (rule linked_next [OF l inj ne _ _ _ _ _ tmp tids]) (use l in \<open>auto simp: f linkedD\<close>)
qed

lemma linked_removeTempImage:
  assumes l: "linked env d0 w" and inj: "inj (randomUUID env)"
    and ne: "\<forall>n. randomUUID env n \<noteq> []"
  shows "linked env d0 (removeTempImage i w)"
proof -
  let ?w' = "removeTempImage i w"
  have f: "stars ?w' = stars w" "rng ?w' = rng w" "STORE_ASSETS ?w' = STORE_ASSETS w"
    "STORE_STATE ?w' = STORE_STATE w"
    by (simp_all add: removeTempImage_def)
  have sub: "set (tempImages ?w') \<subseteq> set (tempImages w)"
  proof
    fix t assume "t \<in> set (tempImages ?w')"
    then obtain j where "(j, t) \<in> set (enumerate 0 (tempImages w))"
      by (auto simp: removeTempImage_def)
    then show "t \<in> set (tempImages w)"
      unfolding enumerate_eq_zip by (rule set_zip_rightD)
  qed
  have tmp: "list_all (pending_ok env (STORE_ASSETS ?w')) (tempImages ?w')"
    unfolding f using linkedD(2) [OF l] sub by (auto simp: list_all_iff)
  have tids: "pending_ids (tempImages ?w') \<subseteq> ids_of (stars w) \<union> pending_ids (tempImages w)"
    using sub by (auto simp: pending_ids_def)
  show ?thesis
    by (rule linked_next [OF l inj ne _ _ _ _ _ tmp tids]) (use l in \<open>auto simp: f linkedD\<close>)
qed

lemma linked_handlePlaylistUpdate:
  assumes l: "linked env d0 w" and inj: "inj (randomUUID env)"
    and ne: "\<forall>n. randomUUID env n \<noteq> []"
  shows "linked env d0 (handlePlaylistUpdate p w)"
proof -
  let ?w' = "handlePlaylistUpdate p w"
  have f: "stars ?w' = stars w" "tempImages ?w' = tempImages w" "rng ?w' = rng w"
    "STORE_ASSETS ?w' = STORE_ASSETS w"
    by (simp_all add: handlePlaylistUpdate_def)
  have doc: "STORE_STATE ?w' ''current'' = STORE_STATE w ''current''
              \<or> (\<exists>p c. STORE_STATE ?w' ''current''
                         = Some \<lparr>stars = stars ?w', playlist = p, playbackCount = c\<rparr>)"
    unfolding f using saveGame_doc [of "stars w" p "playbackCount w" "w\<lparr>playlist := p\<rparr>"]
    by (auto simp: handlePlaylistUpdate_def)
  show ?thesis
    by (rule linked_next [OF l inj ne _ _ _ _ doc]) (use l in \<open>auto simp: f linkedD\<close>)
qed

text \<open>
  What handleLaunchStar stores: while the database answers every pending image is
  processed, and with identifiers that never repeat each new identifier still names its
  own file when all are saved.
\<close>

lemma processedImages_total:
  "dbOk w \<Longrightarrow> \<exists>ps w'. processedImages env imgs w = Inr (ps, w')"
proof (induction imgs arbitrary: w)
  case Nil
  then show ?case by simp
next
  case (Cons img imgs)
  show ?case
  proof (cases "img_file img")
    case None
    with Cons.IH [OF Cons.prems] show ?thesis by auto
  next
    case (Some f)
    let ?w1 = "w\<lparr>STORE_ASSETS := (STORE_ASSETS w)(randomUUID env (rng w) \<mapsto> file_blob f),
                  rng := rng w + 1\<rparr>"
    have s: "saveAsset env (file_blob f) w = Inr (randomUUID env (rng w), ?w1)"
      using Cons.prems by (simp add: saveAsset_def Let_def)
    have "dbOk ?w1" using Cons.prems by simp
    from Cons.IH [OF this] obtain ps w' where "processedImages env imgs ?w1 = Inr (ps, w')"
      by blast
    with Some s show ?thesis by simp
  qed
qed

lemma processedImages_ids:
  assumes "processedImages env imgs w = Inr (ps, w')" and "inj (randomUUID env)"
  shows "rng w \<le> rng w'
     \<and> (\<forall>k. k \<notin> randomUUID env ` {rng w..<rng w'} \<longrightarrow> STORE_ASSETS w' k = STORE_ASSETS w k)
     \<and> (\<forall>i<length imgs.
          (img_file (imgs ! i) = None \<longrightarrow> snd (ps ! i) = img_assetId (imgs ! i))
          \<and> (\<forall>f. img_file (imgs ! i) = Some f \<longrightarrow>
                (\<exists>n. rng w \<le> n \<and> n < rng w' \<and> snd (ps ! i) = Some (randomUUID env n)
                     \<and> STORE_ASSETS w' (randomUUID env n) = Some (file_blob f))))"
  using assms(1)
proof (induction imgs arbitrary: w ps)
  case Nil
  then show ?case by simp
next
  case (Cons img imgs)
  show ?case
  proof (cases "img_file img")
    case None
    with Cons.prems obtain ps0 where
      r: "processedImages env imgs w = Inr (ps0, w')" and p: "ps = (img_url img, img_assetId img) # ps0"
      by (auto split: sum.splits)
    note ih = Cons.IH [OF r]
    have "\<forall>i<length (img # imgs).
          (img_file ((img # imgs) ! i) = None \<longrightarrow> snd (ps ! i) = img_assetId ((img # imgs) ! i))
          \<and> (\<forall>f. img_file ((img # imgs) ! i) = Some f \<longrightarrow>
                (\<exists>n. rng w \<le> n \<and> n < rng w' \<and> snd (ps ! i) = Some (randomUUID env n)
                     \<and> STORE_ASSETS w' (randomUUID env n) = Some (file_blob f)))"
    proof (intro allI impI)
      fix i assume "i < length (img # imgs)"
      then show "(img_file ((img # imgs) ! i) = None \<longrightarrow> snd (ps ! i) = img_assetId ((img # imgs) ! i))
          \<and> (\<forall>f. img_file ((img # imgs) ! i) = Some f \<longrightarrow>
                (\<exists>n. rng w \<le> n \<and> n < rng w' \<and> snd (ps ! i) = Some (randomUUID env n)
                     \<and> STORE_ASSETS w' (randomUUID env n) = Some (file_blob f)))"
        using ih None p by (cases i) simp_all
    qed
    with ih show ?thesis by blast
  next
    case (Some f)
    let ?a = "randomUUID env (rng w)"
    let ?w1 = "w\<lparr>STORE_ASSETS := (STORE_ASSETS w)(?a \<mapsto> file_blob f), rng := rng w + 1\<rparr>"
    from Some Cons.prems have ok: "dbOk w"
      by (auto simp: saveAsset_def split: sum.splits if_splits)
    then have s: "saveAsset env (file_blob f) w = Inr (?a, ?w1)"
      by (simp add: saveAsset_def Let_def)
    with Some Cons.prems obtain ps0 where
      r: "processedImages env imgs ?w1 = Inr (ps0, w')" and p: "ps = (img_url img, Some ?a) # ps0"
      by (auto split: sum.splits)
    note ih = Cons.IH [OF r]
    from ih have le: "Suc (rng w) \<le> rng w'" by simp
    have fresh: "?a \<notin> randomUUID env ` {Suc (rng w)..<rng w'}"
    proof
      assume "?a \<in> randomUUID env ` {Suc (rng w)..<rng w'}"
      then obtain n where "?a = randomUUID env n" and "Suc (rng w) \<le> n" by auto
      with assms(2) have "rng w = n" by (simp add: inj_eq)
      with \<open>Suc (rng w) \<le> n\<close> show False by simp
    qed
    have frame1: "STORE_ASSETS w' k = STORE_ASSETS ?w1 k"
      if "k \<notin> randomUUID env ` {Suc (rng w)..<rng w'}" for k
      using ih that by simp
    have a: "STORE_ASSETS w' ?a = Some (file_blob f)"
      using frame1 [OF fresh] by simp
    have frame: "\<forall>k. k \<notin> randomUUID env ` {rng w..<rng w'} \<longrightarrow> STORE_ASSETS w' k = STORE_ASSETS w k"
    proof (intro allI impI)
      fix k assume k: "k \<notin> randomUUID env ` {rng w..<rng w'}"
      then have "k \<notin> randomUUID env ` {Suc (rng w)..<rng w'}" by auto
      moreover from k le have "k \<noteq> ?a" by auto
      ultimately show "STORE_ASSETS w' k = STORE_ASSETS w k" using frame1 by simp
    qed
    have slots: "\<forall>i<length (img # imgs).
          (img_file ((img # imgs) ! i) = None \<longrightarrow> snd (ps ! i) = img_assetId ((img # imgs) ! i))
          \<and> (\<forall>f. img_file ((img # imgs) ! i) = Some f \<longrightarrow>
                (\<exists>n. rng w \<le> n \<and> n < rng w' \<and> snd (ps ! i) = Some (randomUUID env n)
                     \<and> STORE_ASSETS w' (randomUUID env n) = Some (file_blob f)))"
    proof (intro allI impI)
      fix i assume i: "i < length (img # imgs)"
      show "(img_file ((img # imgs) ! i) = None \<longrightarrow> snd (ps ! i) = img_assetId ((img # imgs) ! i))
          \<and> (\<forall>f. img_file ((img # imgs) ! i) = Some f \<longrightarrow>
                (\<exists>n. rng w \<le> n \<and> n < rng w' \<and> snd (ps ! i) = Some (randomUUID env n)
                     \<and> STORE_ASSETS w' (randomUUID env n) = Some (file_blob f)))"
      proof (cases i)
        case 0
        have "rng w \<le> rng w \<and> rng w < rng w' \<and> snd (ps ! 0) = Some ?a
              \<and> STORE_ASSETS w' ?a = Some (file_blob f)"
          using le a p by simp
        then show ?thesis using 0 Some by auto
      next
        case (Suc i')
        with i have i': "i' < length imgs" by simp
        from ih i' have
          n: "img_file (imgs ! i') = None \<longrightarrow> snd (ps0 ! i') = img_assetId (imgs ! i')"
          and y: "\<forall>g. img_file (imgs ! i') = Some g \<longrightarrow>
                (\<exists>n. Suc (rng w) \<le> n \<and> n < rng w' \<and> snd (ps0 ! i') = Some (randomUUID env n)
                     \<and> STORE_ASSETS w' (randomUUID env n) = Some (file_blob g))"
          by simp_all
        have "\<exists>n. rng w \<le> n \<and> n < rng w' \<and> snd (ps0 ! i') = Some (randomUUID env n)
                     \<and> STORE_ASSETS w' (randomUUID env n) = Some (file_blob g)"
          if "img_file (imgs ! i') = Some g" for g
        proof -
          from y that obtain n where "Suc (rng w) \<le> n" "n < rng w'"
            "snd (ps0 ! i') = Some (randomUUID env n)"
            "STORE_ASSETS w' (randomUUID env n) = Some (file_blob g)" by blast
          then show ?thesis by (intro exI [of _ n]) simp
        qed
        then show ?thesis using n Suc p by simp
      qed
    qed
    from le frame slots show ?thesis by simp
  qed
qed

lemma linked_handleLaunchStar:
  assumes l: "linked env d0 w" and inj: "inj (randomUUID env)"
    and ne: "\<forall>n. randomUUID env n \<noteq> []"
  shows "linked env d0 (handleLaunchStar env w)"
proof (cases "editingStarId w")
  case None
  then show ?thesis using l by (simp add: handleLaunchStar_def)
next
  case (Some e)
  show ?thesis
  proof (cases "processedImages env (tempImages w) w")
    case (Inl err)
    have "linked env d0 (w\<lparr>alerts := a\<rparr>)" for a using l by (simp add: linked_def)
    then show ?thesis using Some Inl by (simp add: handleLaunchStar_def)
  next
    case (Inr r)
    obtain ps w1 where r: "processedImages env (tempImages w) w = Inr (ps, w1)"
      using Inr by (cases r) simp
    note fr1 = processedImages_frame [OF r]
    note id1 = processedImages_ids [OF r inj]
    let ?w' = "handleLaunchStar env w"
    let ?idOf = "\<lambda>p :: string \<times> string option. case snd p of None \<Rightarrow> [] | Some a \<Rightarrow> a"
    let ?launched = "\<lambda>star. star\<lparr>isActive := True, images := map fst ps,
                              imageAssetIds := Some (map ?idOf ps),
                              star_text := Some (tempText w), viewCount := 0\<rparr>"
    let ?new = "map (\<lambda>star. if star_id star = e then ?launched star else star) (stars w)"
    have f: "stars ?w' = ?new" "tempImages ?w' = []" "rng ?w' = rng w1"
      "STORE_ASSETS ?w' = STORE_ASSETS w1"
      using Some r fr1 by (simp_all add: handleLaunchStar_def Let_def)
    have doc: "STORE_STATE ?w' ''current'' = STORE_STATE w ''current''
              \<or> (\<exists>p c. STORE_STATE ?w' ''current''
                         = Some \<lparr>stars = stars ?w', playlist = p, playbackCount = c\<rparr>)"
      unfolding f using Some r fr1
      by (auto simp: handleLaunchStar_def Let_def saveGame_store)
    have fr: "\<forall>k. k \<notin> randomUUID env ` {rng w..<rng ?w'} \<longrightarrow> STORE_ASSETS ?w' k = STORE_ASSETS w k"
      unfolding f using id1 by blast
    have le: "rng w \<le> rng ?w'" unfolding f using id1 by blast
    note old = linked_stars [OF l fr] and pend = linked_pending [OF l fr]
    have slot: "handle_of env (STORE_ASSETS w1) (fst (ps ! i)) (?idOf (ps ! i))
                \<and> fst (ps ! i) \<noteq> []
                \<and> ?idOf (ps ! i) \<in> pending_ids (tempImages w)
                      \<union> randomUUID env ` {rng w..<rng w1} \<union> {[]}"
      if i: "i < length ps" for i
    proof -
      let ?t = "tempImages w ! i"
      from i fr1 have it: "i < length (tempImages w)" by simp
      then have mem: "?t \<in> set (tempImages w)" by simp
      from pend it have pk: "pending_ok env (STORE_ASSETS w1) ?t"
        unfolding f by (simp add: list_all_length)
      have url: "fst (ps ! i) = img_url ?t"
        using fr1 it i by (metis nth_map)
      show ?thesis
      proof (cases "img_file ?t")
        case None
        with id1 it have sn: "snd (ps ! i) = img_assetId ?t" by blast
        have "?idOf (ps ! i) \<in> pending_ids (tempImages w) \<union> {[]}"
          using sn mem by (auto simp: pending_ids_def split: option.splits)
        then show ?thesis using pk None sn url by (auto simp: pending_ok_def)
      next
        case (Some fl)
        with id1 it obtain n where n: "rng w \<le> n" "n < rng w1"
          "snd (ps ! i) = Some (randomUUID env n)"
          "STORE_ASSETS w1 (randomUUID env n) = Some (file_blob fl)" by blast
        then show ?thesis using pk Some url by (auto simp: pending_ok_def handle_of_def)
      qed
    qed
    have launched: "paired env (STORE_ASSETS w1) (?launched s) \<and> no_empty (?launched s)" for s
    proof -
      have "list_all2 (handle_of env (STORE_ASSETS w1)) (map fst ps) (map ?idOf ps)"
        using slot by (simp add: list_all2_conv_all_nth)
      moreover have "list_all (\<lambda>u. u \<noteq> []) (map fst ps)"
        using slot by (simp add: list_all_length)
      ultimately show ?thesis by (simp add: paired_def no_empty_def)
    qed
    have st: "list_all (\<lambda>s. paired env (STORE_ASSETS ?w') s \<and> no_empty s) (stars ?w')"
      unfolding f(1) using old launched unfolding f(4) by (auto simp: list_all_iff)
    have lids: "star_ids (?launched s) \<subseteq> pending_ids (tempImages w)
                      \<union> randomUUID env ` {rng w..<rng w1} \<union> {[]}" for s
    proof
      fix a assume "a \<in> star_ids (?launched s)"
      then obtain i where "i < length ps" "a = ?idOf (ps ! i)"
        by (auto simp: star_ids_def in_set_conv_nth)
      with slot show "a \<in> pending_ids (tempImages w) \<union> randomUUID env ` {rng w..<rng w1} \<union> {[]}"
        by blast
    qed
    have ids: "ids_of (stars ?w') \<subseteq> ids_of (stars w) \<union> pending_ids (tempImages w)
                \<union> randomUUID env ` {rng w..<rng ?w'} \<union> {[]}"
    proof
      fix a assume "a \<in> ids_of (stars ?w')"
      then obtain s where s: "s \<in> set (stars w)"
        and a: "a \<in> star_ids (if star_id s = e then ?launched s else s)"
        unfolding f(1) by (auto simp: ids_of_def)
      show "a \<in> ids_of (stars w) \<union> pending_ids (tempImages w)
                \<union> randomUUID env ` {rng w..<rng ?w'} \<union> {[]}"
      proof (cases "star_id s = e")
        case True
        with a lids [of s] show ?thesis unfolding f(3) by auto
      next
        case False
        with a s show ?thesis by (auto simp: ids_of_def)
      qed
    qed
    show ?thesis
      by (rule linked_next [OF l inj ne fr le st ids doc]) (simp_all add: f pending_ids_def)
  qed
qed

lemma linked_step:
  assumes "linked env d0 w" and "inj (randomUUID env)" and "\<forall>n. randomUUID env n \<noteq> []"
  shows "linked env d0 (step env w ev)"
proof (cases ev)
  case (ImageSelect fs)
  then show ?thesis
    using assms by (cases fs) (simp_all add: handleImageSelect_def linked_processFiles)
next
  case (Drop fs)
  then show ?thesis using assms by (simp add: handleDrop_def linked_processFiles)
next
  case (SetCurrentIndex i)
  then show ?thesis using assms(1) by (simp add: linked_def)
next
  case (SetTempText t)
  then show ?thesis using assms(1) by (simp add: linked_def)
next
  case CloseModal
  then show ?thesis using assms(1) by (simp add: linked_def)
qed (simp_all add: assms linked_handleMusicUpload linked_handleSongEnd linked_handleStarClick
       linked_handleStarView linked_handleLaunchStar linked_removeTempImage
       linked_handlePlaylistUpdate)

lemma linked_run:
  assumes "linked env d0 w" and "inj (randomUUID env)" and "\<forall>n. randomUUID env n \<noteq> []"
  shows "linked env d0 (run env evs w)"
  using assms(1) unfolding run_def
  by (induction evs arbitrary: w) (simp_all add: linked_step assms(2,3))

lemma linked_loaded [simp]: "linked env d0 (w\<lparr>isDataLoaded := b\<rparr>) = linked env d0 w"
  by (simp add: linked_def)

lemma App_fields:
  "STORE_ASSETS (App env ok cb as st) = as" "STORE_STATE (App env ok cb as st) = st"
  "tempImages (App env ok cb as st) = []" "rng (App env ok cb as st) = 0"
  "dbOk (App env ok cb as st) = ok"
  by (simp_all add: App_def)

lemma linked_App:
  assumes seed: "list_all (\<lambda>s. paired env as s \<and> no_empty s) (STATIC_STARS (initialData env))"
    and doc: "stored_ok (\<lambda>s. same_length s \<and> no_empty s) st"
    and fresh: "\<forall>n. randomUUID env n \<notin> ids_of (STATIC_STARS (initialData env)) \<union> stored_ids st"
  shows "linked env (st ''current'') (App env ok cb as st)"
    and "persisted_ok env (st ''current'') as (st ''current'')"
proof -
  let ?w = "App env ok cb as st" and ?seed = "STATIC_STARS (initialData env)"
  have gen: "list_all (\<lambda>s. paired env as s \<and> no_empty s) (generateRandomStars env)"
    "ids_of (generateRandomStars env) = {}"
    by (simp_all add: generateRandomStars_def list_all_iff paired_def no_empty_def ids_of_def
          star_ids_def)
  have live: "list_all (\<lambda>s. paired env as s \<and> no_empty s) (stars ?w)"
    and lids: "ids_of (stars ?w) \<subseteq> ids_of ?seed"
    using seed gen by (simp_all add: App_def)
  show pers: "persisted_ok env (st ''current'') as (st ''current'')"
    using doc by (auto simp: persisted_ok_def stored_ok_def list_all_iff split: option.splits)
  show "linked env (st ''current'') ?w"
    unfolding linked_def App_fields using live pers fresh lids by (auto simp: pending_ids_def)
qed

lemma linked_restore_App:
  assumes seed: "list_all (\<lambda>s. paired env as s \<and> no_empty s) (STATIC_STARS (initialData env))"
    and doc: "stored_ok (\<lambda>s. same_length s \<and> no_empty s) st"
    and fresh: "\<forall>n. randomUUID env n \<notin> ids_of (STATIC_STARS (initialData env)) \<union> stored_ids st"
    and d: "st ''current'' = Some d"
  shows "linked env (st ''current'') (restore env d (App env True cb as st))"
proof -
  let ?w = "App env True cb as st"
  from doc d have "list_all same_length (stars d)" "list_all no_empty (stars d)"
    by (simp_all add: stored_ok_def list_all_iff)
  from restore_linked [of ?w d env, unfolded App_fields, OF TrueI this]
  have r: "list_all (\<lambda>s. paired env as s \<and> no_empty s) (stars (restore env d ?w))"
    "ids_of (stars (restore env d ?w)) = ids_of (stars d)"
    "STORE_ASSETS (restore env d ?w) = as" "STORE_STATE (restore env d ?w) = st"
    "tempImages (restore env d ?w) = []" "rng (restore env d ?w) = 0"
    by simp_all
  have "ids_of (stars d) \<subseteq> stored_ids st" using d by (simp add: stored_ids_def)
  then show ?thesis
    unfolding linked_def r using r(1) linked_App(2) [OF seed doc fresh] fresh
    by (auto simp: pending_ids_def)
qed

lemma linked_seed_saved:
  assumes seed: "list_all (\<lambda>s. paired env as s \<and> no_empty s) (STATIC_STARS (initialData env))"
    and doc: "stored_ok (\<lambda>s. same_length s \<and> no_empty s) st"
    and fresh: "\<forall>n. randomUUID env n \<notin> ids_of (STATIC_STARS (initialData env)) \<union> stored_ids st"
    and some: "STATIC_STARS (initialData env) \<noteq> []"
  shows "linked env (st ''current'')
           ((App env ok cb as st)
              \<lparr>STORE_STATE := st(''current'' \<mapsto>
                 \<lparr>stars = STATIC_STARS (initialData env), playlist = p, playbackCount = c\<rparr>)\<rparr>)"
proof -
  let ?seed = "STATIC_STARS (initialData env)"
  have "stars (App env ok cb as st) = ?seed" using some by (simp add: App_def)
  moreover have "list_all same_length ?seed"
    using seed by (auto simp: list_all_iff paired_same_length)
  ultimately show ?thesis
    using linked_App(1) [OF seed doc fresh, of ok cb] seed fresh
    by (auto simp: linked_def App_fields persisted_ok_def stored_ids_def pending_ids_def)
qed

lemma linked_init:
  assumes seed: "list_all (\<lambda>s. paired env as s \<and> no_empty s) (STATIC_STARS (initialData env))"
    and doc: "stored_ok (\<lambda>s. same_length s \<and> no_empty s) st"
    and fresh: "\<forall>n. randomUUID env n \<notin> ids_of (STATIC_STARS (initialData env)) \<union> stored_ids st"
  shows "linked env (st ''current'') (init_part_000 env (App env ok cb as st))"
    and "linked env (st ''current'') (init_part_001 env (App env ok cb as st))"
proof -
  note base = linked_App(1) [OF assms] and loaded = linked_restore_App [OF assms]
    and saved = linked_seed_saved [OF assms]
  show "linked env (st ''current'') (init_part_001 env (App env ok cb as st))"
    using base loaded
    by (cases ok; cases "st ''current''")
       (simp_all add: init_part_001_def loadGameState_def App_fields)
  show "linked env (st ''current'') (init_part_000 env (App env ok cb as st))"
    using base loaded saved
    by (cases ok; cases "st ''current''")
       (simp_all add: init_part_000_def loadGameState_def saveGameState_def App_fields)
qed

lemma linked_index_aligned:
  assumes "linked env (st ''current'') w"
  shows "index_aligned env st w"
proof -
  from assms have a: "list_all (\<lambda>s. paired env (STORE_ASSETS w) s \<and> no_empty s) (stars w)"
    and b: "persisted_ok env (st ''current'') (STORE_ASSETS w) (STORE_STATE w ''current'')"
    by (simp_all add: linked_def)
  from a have "list_all (paired env (STORE_ASSETS w)) (stars w)" by (simp add: list_all_iff)
  moreover from b have "stored_ok same_length (STORE_STATE w)"
    by (auto simp: persisted_ok_def stored_ok_def split: option.splits)
  moreover from b have "STORE_STATE w ''current'' = st ''current''
           \<or> stored_ok (paired env (STORE_ASSETS w)) (STORE_STATE w)"
    by (auto simp: persisted_ok_def stored_ok_def list_all_iff split: option.splits)
  ultimately show ?thesis by (simp add: index_aligned_def)
qed

lemma handleLaunchStar_slots:
  assumes "dbOk w" and "inj (randomUUID env)" and "editingStarId w = Some e"
  shows "\<exists>d. STORE_STATE (handleLaunchStar env w) ''current'' = Some d
          \<and> stars d = stars (handleLaunchStar env w)
          \<and> length (stars d) = length (stars w)
          \<and> (\<forall>j<length (stars w). star_id (stars w ! j) = e \<longrightarrow>
                images (stars d ! j) = map img_url (tempImages w)
                \<and> (\<exists>ids. imageAssetIds (stars d ! j) = Some ids
                      \<and> length ids = length (tempImages w)
                      \<and> (\<forall>i<length ids.
                            (img_file (tempImages w ! i) = None \<longrightarrow>
                               ids ! i = (case img_assetId (tempImages w ! i) of
                                            None \<Rightarrow> [] | Some a \<Rightarrow> a))
                            \<and> (\<forall>f. img_file (tempImages w ! i) = Some f \<longrightarrow>
                                   STORE_ASSETS (handleLaunchStar env w) (ids ! i)
                                     = Some (file_blob f)))))"
proof -
  from processedImages_total [OF assms(1)] obtain ps w1 where
    r: "processedImages env (tempImages w) w = Inr (ps, w1)" by blast
  note fr = processedImages_frame [OF r]
  note ids = processedImages_ids [OF r assms(2)]
  let ?ids = "map (\<lambda>p. case snd p of None \<Rightarrow> [] | Some a \<Rightarrow> a) ps"
  let ?new = "map (\<lambda>star. if star_id star = e then
                         star\<lparr>isActive := True, images := map fst ps,
                              imageAssetIds := Some ?ids,
                              star_text := Some (tempText w), viewCount := 0\<rparr>
                       else star) (stars w)"
  let ?d = "\<lparr>stars = ?new, playlist = playlist w, playbackCount = playbackCount w\<rparr>"
  have st: "stars (handleLaunchStar env w) = ?new"
    and sa: "STORE_ASSETS (handleLaunchStar env w) = STORE_ASSETS w1"
    and ss: "STORE_STATE (handleLaunchStar env w) ''current'' = Some ?d"
    using assms(1,3) r fr by (simp_all add: handleLaunchStar_def Let_def saveGame_store)
  have slot: "(img_file (tempImages w ! i) = None \<longrightarrow>
                 ?ids ! i = (case img_assetId (tempImages w ! i) of None \<Rightarrow> [] | Some a \<Rightarrow> a))
              \<and> (\<forall>f. img_file (tempImages w ! i) = Some f \<longrightarrow>
                     STORE_ASSETS w1 (?ids ! i) = Some (file_blob f))"
    if i: "i < length ?ids" for i
  proof -
    from i fr have i': "i < length (tempImages w)" "i < length ps" by simp_all
    from ids i' have
      n: "img_file (tempImages w ! i) = None \<longrightarrow> snd (ps ! i) = img_assetId (tempImages w ! i)"
      and y: "\<forall>f. img_file (tempImages w ! i) = Some f \<longrightarrow>
                (\<exists>n. snd (ps ! i) = Some (randomUUID env n)
                     \<and> STORE_ASSETS w1 (randomUUID env n) = Some (file_blob f))"
      by blast+
    have "STORE_ASSETS w1 (?ids ! i) = Some (file_blob f)"
      if "img_file (tempImages w ! i) = Some f" for f
    proof -
      from y that obtain n where "snd (ps ! i) = Some (randomUUID env n)"
        "STORE_ASSETS w1 (randomUUID env n) = Some (file_blob f)" by blast
      then show ?thesis using i'(2) by simp
    qed
    then show ?thesis using n i'(2) by simp
  qed
  have star: "images (?new ! j) = map img_url (tempImages w)
                \<and> (\<exists>ids. imageAssetIds (?new ! j) = Some ids
                      \<and> length ids = length (tempImages w)
                      \<and> (\<forall>i<length ids.
                            (img_file (tempImages w ! i) = None \<longrightarrow>
                               ids ! i = (case img_assetId (tempImages w ! i) of
                                            None \<Rightarrow> [] | Some a \<Rightarrow> a))
                            \<and> (\<forall>f. img_file (tempImages w ! i) = Some f \<longrightarrow>
                                   STORE_ASSETS w1 (ids ! i) = Some (file_blob f))))"
    if "j < length (stars w)" "star_id (stars w ! j) = e" for j
  proof -
    have "images (?new ! j) = map img_url (tempImages w)"
      and "imageAssetIds (?new ! j) = Some ?ids"
      and "length ?ids = length (tempImages w)"
      using that fr by simp_all
    then show ?thesis using slot by blast
  qed
  have "stars ?d = stars (handleLaunchStar env w)" "length (stars ?d) = length (stars w)"
    using st by simp_all
  moreover have "\<forall>j<length (stars w). star_id (stars w ! j) = e \<longrightarrow>
                images (stars ?d ! j) = map img_url (tempImages w)
                \<and> (\<exists>ids. imageAssetIds (stars ?d ! j) = Some ids
                      \<and> length ids = length (tempImages w)
                      \<and> (\<forall>i<length ids.
                            (img_file (tempImages w ! i) = None \<longrightarrow>
                               ids ! i = (case img_assetId (tempImages w ! i) of
                                            None \<Rightarrow> [] | Some a \<Rightarrow> a))
                            \<and> (\<forall>f. img_file (tempImages w ! i) = Some f \<longrightarrow>
                                   STORE_ASSETS (handleLaunchStar env w) (ids ! i)
                                     = Some (file_blob f))))"
    using star unfolding sa by simp
  ultimately show ?thesis using ss by blast
qed

lemma handleStarClick_pairs:
  assumes "find (\<lambda>s. star_id s = i) (stars w) = Some star"
  shows "(imageAssetIds star = None \<longrightarrow>
            tempImages (handleStarClick i w)
              = map (\<lambda>u. \<lparr>img_url = u, img_file = None, img_assetId = None\<rparr>) (images star))
         \<and> (\<forall>ids. imageAssetIds star = Some ids \<and> length ids = length (images star) \<longrightarrow>
              tempImages (handleStarClick i w)
                = map2 (\<lambda>u a. \<lparr>img_url = u, img_file = None, img_assetId = Some a\<rparr>)
                       (images star) ids)"
proof (intro conjI allI impI)
  assume "imageAssetIds star = None"
  then show "tempImages (handleStarClick i w)
              = map (\<lambda>u. \<lparr>img_url = u, img_file = None, img_assetId = None\<rparr>) (images star)"
    using assms by (intro nth_equalityI) (simp_all add: handleStarClick_def nth_enumerate_eq)
next
  fix ids assume "imageAssetIds star = Some ids \<and> length ids = length (images star)"
  then show "tempImages (handleStarClick i w)
                = map2 (\<lambda>u a. \<lparr>img_url = u, img_file = None, img_assetId = Some a\<rparr>)
                       (images star) ids"
    using assms by (intro nth_equalityI) (simp_all add: handleStarClick_def nth_enumerate_eq)
qed

text \<open>
  C2, as the code has it. Assume that every star of the seed is paired in the asset store
  found at startup and has no empty image reference (a seed star without identifier list,
  as the example and every export have them, is paired), that every star of the Document
  found in the store has lists of the same length if it has an identifier list, and no
  empty image reference, and that the identifiers drawn in the session never repeat, are
  not empty and are not among those the seed and that Document mention. Then in every
  state that a session reaches (either variant of init, then any handlers in any order)
  every star of the live model is paired, and every star of the persisted Document has
  lists of the same length if it has an identifier list and, once the Document has been
  written in the session, is paired: the image reference at index i is the handle of the
  identifier at index i. In any state, a click on a star pairs pending image i with
  identifier i of the star, and a launch, while the database answers and identifiers
  never repeat, persists for the edited star the pending image references in order, with
  an identifier list of the same length in which identifier i is the one pending image i
  had (the empty string if it had none) or, for a new file, an identifier under which the
  asset store holds that file.
\<close>

theorem aligned_when_persisted:
  assumes "list_all (\<lambda>s. paired env as s \<and> no_empty s) (STATIC_STARS (initialData env))"
    and "stored_ok (\<lambda>s. same_length s \<and> no_empty s) st"
    and "inj (randomUUID env)"
    and "\<forall>n. randomUUID env n \<noteq> []
            \<and> randomUUID env n \<notin> ids_of (STATIC_STARS (initialData env)) \<union> stored_ids st"
  shows "index_aligned env st (run env evs (init_part_000 env (App env ok cb as st)))
     \<and> index_aligned env st (run env evs (init_part_001 env (App env ok cb as st)))
     \<and> (\<forall>star. find (\<lambda>s. star_id s = i) (stars w) = Some star \<longrightarrow>
           (imageAssetIds star = None \<longrightarrow>
              tempImages (handleStarClick i w)
                = map (\<lambda>u. \<lparr>img_url = u, img_file = None, img_assetId = None\<rparr>) (images star))
           \<and> (\<forall>ids. imageAssetIds star = Some ids \<and> length ids = length (images star) \<longrightarrow>
                tempImages (handleStarClick i w)
                  = map2 (\<lambda>u a. \<lparr>img_url = u, img_file = None, img_assetId = Some a\<rparr>)
                         (images star) ids))
     \<and> (dbOk w \<and> editingStarId w = Some e \<longrightarrow>
         (\<exists>d. STORE_STATE (handleLaunchStar env w) ''current'' = Some d
            \<and> stars d = stars (handleLaunchStar env w)
            \<and> length (stars d) = length (stars w)
            \<and> (\<forall>j<length (stars w). star_id (stars w ! j) = e \<longrightarrow>
                  images (stars d ! j) = map img_url (tempImages w)
                  \<and> (\<exists>ids. imageAssetIds (stars d ! j) = Some ids
                        \<and> length ids = length (tempImages w)
                        \<and> (\<forall>i<length ids.
                              (img_file (tempImages w ! i) = None \<longrightarrow>
                                 ids ! i = (case img_assetId (tempImages w ! i) of
                                              None \<Rightarrow> [] | Some a \<Rightarrow> a))
                              \<and> (\<forall>f. img_file (tempImages w ! i) = Some f \<longrightarrow>
                                     STORE_ASSETS (handleLaunchStar env w) (ids ! i)
                                       = Some (file_blob f)))))))"
proof -
  from assms(4) have ne: "\<forall>n. randomUUID env n \<noteq> []"
    and fresh: "\<forall>n. randomUUID env n \<notin> ids_of (STATIC_STARS (initialData env)) \<union> stored_ids st"
    by blast+
  note i = linked_init [OF assms(1,2) fresh, of ok cb]
  have "index_aligned env st (run env evs (init_part_000 env (App env ok cb as st)))"
    and "index_aligned env st (run env evs (init_part_001 env (App env ok cb as st)))"
    by (rule linked_index_aligned, rule linked_run [OF _ assms(3) ne], rule i)+
  then show ?thesis
    using handleLaunchStar_slots [OF _ assms(3), of w e] handleStarClick_pairs [of i w]
    by blast
qed

lemma inj_browser_uuid: "inj (randomUUID (browser d))"
proof (rule injI)
  fix m n assume "randomUUID (browser d) m = randomUUID (browser d) n"
  then have "length (replicate (Suc m) CHR ''u'') = length (replicate (Suc n) CHR ''u'')"
    by (simp add: browser_def)
  then show "m = n" by simp
qed

theorem aligned_when_persisted_witness:
  "list_all (\<lambda>s. paired (browser exampleData) photoAssets s \<and> no_empty s)
     (STATIC_STARS (initialData (browser exampleData)))
   \<and> stored_ok (\<lambda>s. same_length s \<and> no_empty s) savedStore
   \<and> index_aligned (browser exampleData) savedStore
        (run (browser exampleData) [StarClick 0, ImageSelect (Some twoFiles), LaunchStar]
           (init_part_001 (browser exampleData)
              (App (browser exampleData) True True photoAssets savedStore)))
   \<and> tempImages (handleStarClick 0 clickWorld)
       = [\<lparr>img_url = ''blob:stale'', img_file = None, img_assetId = Some ''X''\<rparr>,
          \<lparr>img_url = ''/assets/b.jpg'', img_file = None, img_assetId = Some ''Y''\<rparr>]
   \<and> dbOk pendingWorld \<and> editingStarId pendingWorld = Some 0
   \<and> (\<exists>d. STORE_STATE (handleLaunchStar (browser exampleData) pendingWorld) ''current'' = Some d
         \<and> images (stars d ! 0) = [''blob:a'', ''/assets/b.jpg''])"
proof -
  let ?e = "browser exampleData"
  have h1: "list_all (\<lambda>s. paired ?e photoAssets s \<and> no_empty s) (STATIC_STARS (initialData ?e))"
    by (simp add: browser_def exampleData_def exampleStar_def paired_def no_empty_def)
  have h2: "stored_ok (\<lambda>s. same_length s \<and> no_empty s) savedStore"
    by (simp add: savedStore_def stored_ok_def savedDoc_def savedStar_def same_length_def
          no_empty_def)
  have h3: "inj (randomUUID ?e)" by (rule inj_browser_uuid)
  have h4: "\<forall>n. randomUUID ?e n \<noteq> []
              \<and> randomUUID ?e n \<notin> ids_of (STATIC_STARS (initialData ?e)) \<union> stored_ids savedStore"
    by (simp add: browser_def exampleData_def exampleStar_def ids_of_def star_ids_def
          stored_ids_def savedStore_def savedDoc_def savedStar_def)
  note inst = aligned_when_persisted [OF h1 h2 h3 h4,
      where evs = "[StarClick 0, ImageSelect (Some twoFiles), LaunchStar]" and ok = True
        and cb = True and i = 0 and e = 0]
  note inst_click = inst [where w = clickWorld] and inst_launch = inst [where w = pendingWorld]
  have p: "dbOk pendingWorld \<and> editingStarId pendingWorld = Some 0"
    by (simp add: pendingWorld_def App_def)
  have j: "0 < length (stars pendingWorld)" "star_id (stars pendingWorld ! 0) = 0"
    and t: "map img_url (tempImages pendingWorld) = [''blob:a'', ''/assets/b.jpg'']"
    by (simp_all add: pendingWorld_def App_def exampleStar_def)
  have c: "find (\<lambda>s. star_id s = 0) (stars clickWorld) = Some savedStar"
    and ci: "imageAssetIds savedStar = Some [''X'', ''Y'']
             \<and> length [''X'', ''Y''] = length (images savedStar)"
    by (simp_all add: clickWorld_def savedStar_def)
  from inst_click have a: "index_aligned ?e savedStore
        (run ?e [StarClick 0, ImageSelect (Some twoFiles), LaunchStar]
           (init_part_001 ?e (App ?e True True photoAssets savedStore)))"
    by blast
  from inst_click c ci have "tempImages (handleStarClick 0 clickWorld)
      = map2 (\<lambda>u a. \<lparr>img_url = u, img_file = None, img_assetId = Some a\<rparr>)
             (images savedStar) [''X'', ''Y'']"
    by blast
  then have k: "tempImages (handleStarClick 0 clickWorld)
       = [\<lparr>img_url = ''blob:stale'', img_file = None, img_assetId = Some ''X''\<rparr>,
          \<lparr>img_url = ''/assets/b.jpg'', img_file = None, img_assetId = Some ''Y''\<rparr>]"
    by (simp add: savedStar_def)
  from inst_launch p obtain d where d: "STORE_STATE (handleLaunchStar ?e pendingWorld) ''current'' = Some d"
    and i: "\<forall>j<length (stars pendingWorld). star_id (stars pendingWorld ! j) = 0 \<longrightarrow>
              images (stars d ! j) = map img_url (tempImages pendingWorld)
              \<and> (\<exists>ids. imageAssetIds (stars d ! j) = Some ids
                        \<and> length ids = length (tempImages pendingWorld)
                        \<and> (\<forall>i<length ids.
                              (img_file (tempImages pendingWorld ! i) = None \<longrightarrow>
                                 ids ! i = (case img_assetId (tempImages pendingWorld ! i) of
                                              None \<Rightarrow> [] | Some a \<Rightarrow> a))
                              \<and> (\<forall>f. img_file (tempImages pendingWorld ! i) = Some f \<longrightarrow>
                                     STORE_ASSETS (handleLaunchStar ?e pendingWorld) (ids ! i)
                                       = Some (file_blob f))))"
    by blast
  from i j have "images (stars d ! 0) = map img_url (tempImages pendingWorld)" by blast
  then have "images (stars d ! 0) = [''blob:a'', ''/assets/b.jpg'']" by (simp only: t)
  with d have l: "\<exists>d. STORE_STATE (handleLaunchStar ?e pendingWorld) ''current'' = Some d
         \<and> images (stars d ! 0) = [''blob:a'', ''/assets/b.jpg'']" by blast
  show ?thesis using h1 h2 a k p l by blast
qed

text \<open>
  C2 as stated fails. The example star of the seed has one image and no identifier list,
  and that is how it is persisted after a view. And a stored star with the one identifier
  X, missing from the asset store, and the one empty image reference is restored without
  image, so that the Document persisted after a view has no image for one identifier.
\<close>

theorem aligned_when_persisted_counterexample:
  "map_option (\<lambda>d. map (\<lambda>s. (length (images s), imageAssetIds s)) (stars d))
     (STORE_STATE (run (browser exampleData) [StarView 0]
        (init_part_001 (browser exampleData) (App (browser exampleData) True True Map.empty Map.empty)))
        ''current'')
     = Some [(1, None)]
   \<and> map (\<lambda>s. (length (images s), imageAssetIds s)) (stars emptySlotDoc) = [(1, Some [''X''])]
   \<and> map_option (\<lambda>d. map (\<lambda>s. (length (images s), imageAssetIds s)) (stars d))
     (STORE_STATE (run (browser shippedData) [StarView 0]
        (init_part_001 (browser shippedData)
           (App (browser shippedData) True True Map.empty [''current'' \<mapsto> emptySlotDoc])))
        ''current'')
     = Some [(0, Some [''X''])]"
  by (simp add: eval_defs data_defs run_def handleStarView_def saveGame_def emptySlotDoc_def
        emptySlotStar_def)

end
